theory Spec2Isabelle
  imports Complex_Main "HOL-Library.AList"
begin

section \<open>Exceptions\<close>

text \<open>
  Python exceptions are values.  Only instances of the class \<open>Exception\<close> are modelled
  (the handlers of the code name \<open>Exception\<close> or one of its subclasses); the class of an
  exception decides which \<open>except\<close> clause takes it, the message is what \<open>str(e)\<close>
  prints.  \<open>ParseError\<close> is \<open>xml.etree.ElementTree.ParseError\<close>, the class line 4
  imports.  \<open>XMLSyntaxError\<close> is the class of \<open>lxml.etree\<close>, which the parser of line 7
  raises on a document that is not well-formed; it derives from the \<open>ParseError\<close> of
  \<open>lxml\<close> and from \<open>SyntaxError\<close>, and is not a subclass of the \<open>ParseError\<close> above.
\<close>

datatype exn_class =
    HTTPError | ConnectionError | ParseError | XMLSyntaxError
  | ValueError | KeyError | TypeError | OtherException

datatype exn = Exn (cls: exn_class) (msg: string)

section \<open>agent.py: the collection loop of AgentRunner\<close>

definition AGENT_VERSION :: string where
  "AGENT_VERSION = ''1.1.2''"

text \<open>The two settings the runner reads from the configuration object.\<close>

record config =
  host_metadata_interval :: real
  min_collection_interval :: real

text \<open>
  The fields \<open>_event\<close> and \<open>_meta_ts\<close> of the runner; the collector, the serializer and
  the configuration are collaborators and appear as parameters below.  Clock readings
  and intervals are exact real numbers of seconds: the rounding of the floating-point
  subtraction of line 66 is not modelled.
\<close>

record runner =
  event_set :: bool
  meta_ts :: "real option"

definition init_runner :: runner where
  "init_runner = \<lparr>event_set = False, meta_ts = None\<rparr>"

text \<open>
  What the collaborators do during one iteration of the loop: the reading of
  \<open>time.monotonic()\<close>, and for each call whether it returns or raises.  The payload type
  \<open>'p\<close> is whatever \<open>get_metadata\<close> builds.  \<open>stop_requested\<close> says whether another
  thread calls \<open>stop()\<close> at some point between this iteration's test of the flag and the
  next one.
\<close>

record 'p cycle_env =
  monotonic :: real
  get_hostname :: "exn + string"
  get_metadata :: "string \<Rightarrow> string \<Rightarrow> bool \<Rightarrow> exn + 'p"
  submit_metadata :: "'p \<Rightarrow> exn option"
  run_checks :: "exn option"
  serialize_and_push :: "exn option"
  stop_requested :: bool

text \<open>The calls the loop makes, in the order it makes them.\<close>

datatype 'p event =
    Get_hostname
  | Get_metadata string string bool
  | Submit_metadata 'p
  | Run_checks
  | Serialize_and_push
  | Log_exception exn
  | Sleep real

text \<open>The condition of line 66.\<close>

definition metadata_due :: "config \<Rightarrow> 'p cycle_env \<Rightarrow> runner \<Rightarrow> bool" where
  "metadata_due cfg env st =
     (case meta_ts st of
        None \<Rightarrow> True
      | Some ts \<Rightarrow> monotonic env - ts \<ge> host_metadata_interval cfg)"

text \<open>Lines 66 to 69: the result is the runner, the calls made, and the exception raised if any.\<close>

definition metadata_step ::
  "config \<Rightarrow> 'p cycle_env \<Rightarrow> runner \<Rightarrow> runner \<times> 'p event list \<times> exn option" where
  "metadata_step cfg env st =
     (if metadata_due cfg env st then
        (case get_hostname env of
           Inl e \<Rightarrow> (st, [Get_hostname], Some e)
         | Inr h \<Rightarrow>
            (case get_metadata env h AGENT_VERSION (meta_ts st = None) of
               Inl e \<Rightarrow>
                 (st, [Get_hostname, Get_metadata h AGENT_VERSION (meta_ts st = None)], Some e)
             | Inr md \<Rightarrow>
                (case submit_metadata env md of
                   Some e \<Rightarrow>
                     (st, [Get_hostname, Get_metadata h AGENT_VERSION (meta_ts st = None),
                           Submit_metadata md], Some e)
                 | None \<Rightarrow>
                     (st\<lparr>meta_ts := Some (monotonic env)\<rparr>,
                      [Get_hostname, Get_metadata h AGENT_VERSION (meta_ts st = None),
                       Submit_metadata md], None))))
      else (st, [], None))"

text \<open>The body of the \<open>try\<close>, lines 64 to 72.\<close>

definition try_body ::
  "config \<Rightarrow> 'p cycle_env \<Rightarrow> runner \<Rightarrow> runner \<times> 'p event list \<times> exn option" where
  "try_body cfg env st =
     (case metadata_step cfg env st of
        (st1, evs, Some e) \<Rightarrow> (st1, evs, Some e)
      | (st1, evs, None) \<Rightarrow>
         (case run_checks env of
            Some e \<Rightarrow> (st1, evs @ [Run_checks], Some e)
          | None \<Rightarrow>
             (case serialize_and_push env of
                Some e \<Rightarrow> (st1, evs @ [Run_checks, Serialize_and_push], Some e)
              | None \<Rightarrow> (st1, evs @ [Run_checks, Serialize_and_push], None))))"

text \<open>One iteration: the \<open>try\<close>, its handler (line 74), and the sleep (line 76).\<close>

definition cycle :: "config \<Rightarrow> 'p cycle_env \<Rightarrow> runner \<Rightarrow> runner \<times> 'p event list" where
  "cycle cfg env st =
     (case try_body cfg env st of
        (st1, evs, r) \<Rightarrow>
          (st1,
           evs @ (case r of None \<Rightarrow> [] | Some e \<Rightarrow> [Log_exception e])
               @ [Sleep (min_collection_interval cfg)]))"

text \<open>\<open>stop()\<close>: one log line, and the flag is set.\<close>

definition stop :: "runner \<Rightarrow> runner \<times> string list" where
  "stop st = (st\<lparr>event_set := True\<rparr>, [''Stopping Agent Runner...''])"

text \<open>
  The \<open>while\<close> loop.  It runs as long as the flag is unset, so the model consumes one
  \<open>cycle_env\<close> per iteration: \<open>Exited\<close> means the loop has returned, \<open>Running\<close> that the
  given iterations are over and the loop is about to start another one.  The trace has
  one list of events per iteration executed.
\<close>

datatype status = Running | Exited

fun collection ::
  "config \<Rightarrow> 'p cycle_env list \<Rightarrow> runner \<Rightarrow> status \<times> runner \<times> 'p event list list" where
  "collection cfg envs st =
     (if event_set st then (Exited, st, [])
      else
        (case envs of
           [] \<Rightarrow> (Running, st, [])
         | env # rest \<Rightarrow>
            (case cycle cfg env st of
               (st1, evs) \<Rightarrow>
                 (case collection cfg rest (if stop_requested env then fst (stop st1) else st1) of
                    (s, st2, tr) \<Rightarrow> (s, st2, evs # tr)))))"


section \<open>ibm_was.py: the WebSphere check\<close>

subsection \<open>Documents, dictionaries and what the check emits\<close>

text \<open>
  An element of the parsed document: its tag, its attributes, its children in document
  order.  \<open>get\<close> is the attribute lookup \<open>child.get(key)\<close>, which gives \<open>None\<close> for a
  missing attribute, \<open>findall\<close> the search for the direct children with a given tag, and
  \<open>fmt\<close> what \<open>'{}'.format(v)\<close> prints for a string or \<open>None\<close>.
\<close>

datatype xml = Element (tag: string) (attrib: "(string \<times> string) list") (children: "xml list")

definition get :: "xml \<Rightarrow> string \<Rightarrow> string option" where
  "get x key = map_of (attrib x) key"

definition findall :: "xml \<Rightarrow> string \<Rightarrow> xml list" where
  "findall x path = filter (\<lambda>c. tag c = path) (children x)"

definition fmt :: "string option \<Rightarrow> string" where
  "fmt v = (case v of None \<Rightarrow> ''None'' | Some s \<Rightarrow> s)"

text \<open>
  A Python dictionary is an association list in insertion order: \<open>AList.update\<close> is
  \<open>d[k] = v\<close> (a present key keeps its place, a new key goes to the end), \<open>map_of\<close> is
  \<open>d.get(k)\<close>, and \<open>dict_merge a b\<close> is \<open>dict(a, **b)\<close>.
\<close>

definition dict_merge :: "('k \<times> 'v) list \<Rightarrow> ('k \<times> 'v) list \<Rightarrow> ('k \<times> 'v) list" where
  "dict_merge a b = fold (\<lambda>(k, v) d. AList.update k v d) b a"

datatype kind = GAUGE | MONOTONIC_COUNT | RATE

datatype service_status = OK | CRITICAL

datatype val = IntV int | StrV string | NoneV

text \<open>
  What a check hands to the aggregator and to its logger through the methods of
  \<open>AgentCheck\<close>: a metric sample (kind, name, value, tags), a service check, a log line,
  a warning.
\<close>

datatype emission =
    Sample kind string val "string list"
  | Service_check string service_status "string list"
  | Log_error string
  | Log_debug string
  | Warning string

fun is_sample :: "emission \<Rightarrow> bool" where
  "is_sample (Sample k n v ts) = True"
| "is_sample out = False"

subsection \<open>Configuration and collaborators\<close>

text \<open>A custom query descriptor: a dictionary that may or may not have each of its keys.\<close>

record query =
  stat :: "string option"
  metric_prefix :: "string option"
  tag_keys :: "string list option"

datatype verify = Verify_bool bool | Verify_path string

datatype cert = No_cert | Cert_file string | Cert_pair string string

record http_options =
  auth :: "(string \<times> string) option"
  cert :: cert
  verify :: verify

text \<open>
  The instance configuration, one field per recognised option.  \<open>collect_enabled p\<close> is
  \<open>_is_affirmative(instance.get('collect_<p>_stats', True))\<close>, \<open>tls_verify\<close> is
  \<open>_is_affirmative(instance.get('tls_verify', True))\<close>, and the three TLS materials are
  present when the option is a string.
\<close>

record instance_config =
  servlet_url :: "string option"
  inst_custom_queries :: "query list"
  inst_custom_queries_units_gauge :: "string list"
  inst_tags :: "string list"
  collect_enabled :: "string \<Rightarrow> bool"
  username :: "string option"
  password :: "string option"
  tls_verify :: bool
  tls_cert :: "string option"
  tls_private_key :: "string option"
  tls_ca_cert :: "string option"

record response =
  raise_for_status :: "exn option"
  content :: string

text \<open>
  What the check imports and the source files at hand do not contain: the four tables of
  the module \<open>metrics\<close>, \<open>validation.validate_query\<close>, \<open>AgentCheck.normalize\<close> (called
  with the raw name and the prefix, \<open>fix_case=True\<close>), and the library calls
  \<open>requests.get\<close>, \<open>etree.fromstring\<close> and \<open>xpath\<close>.  They are parameters.
\<close>

record modules =
  METRIC_VALUE_FIELDS :: "(string \<times> string) list"
  CATEGORY_FIELDS :: "string list"
  NESTED_TAGS :: "(string \<times> string list) list"
  METRIC_CATEGORIES :: "(string \<times> string) list"
  validate_query :: "query \<Rightarrow> exn option"
  normalize :: "string \<Rightarrow> string \<Rightarrow> string"
  requests_get :: "string option \<Rightarrow> http_options \<Rightarrow> exn + response"
  fromstring :: "string \<Rightarrow> exn + xml"
  xpath :: "xml \<Rightarrow> string \<Rightarrow> exn + xml list"

text \<open>
  The attributes of the check object, and \<open>emitted\<close>: everything the object has handed
  to the aggregator and the logger so far, oldest first.
\<close>

record check =
  url :: "string option"
  custom_queries :: "query list"
  custom_queries_units_gauge :: "string set"
  custom_tags :: "string list"
  collect_stats :: "(string \<times> bool) list"
  nested_tags :: "(string \<times> string list) list"
  metric_categories :: "(string \<times> string) list"
  custom_stats :: "string set"
  service_check_tags :: "string list"
  check_http_options :: http_options
  emitted :: "emission list"

definition SERVICE_CHECK_CONNECT :: string where
  "SERVICE_CHECK_CONNECT = ''ibm_was.can_connect''"

definition METRIC_PREFIX :: string where
  "METRIC_PREFIX = ''ibm_was''"

definition metric_type_mapping :: "(string \<times> kind) list" where
  "metric_type_mapping =
     [(''AverageStatistic'', GAUGE),
      (''BoundedRangeStatistic'', GAUGE),
      (''CountStatistic'', MONOTONIC_COUNT),
      (''DoubleStatistic'', RATE),
      (''RangeStatistic'', GAUGE),
      (''TimeStatistic'', GAUGE)]"

definition emit :: "emission \<Rightarrow> check \<Rightarrow> check" where
  "emit out self = self\<lparr>emitted := emitted self @ [out]\<rparr>"

text \<open>\<open>self.gauge\<close>, \<open>self.monotonic_count\<close> and \<open>self.rate\<close>, by the kind they submit.\<close>

definition submit :: "kind \<Rightarrow> string \<Rightarrow> val \<Rightarrow> string list \<Rightarrow> check \<Rightarrow> check" where
  "submit k name v tags self = emit (Sample k name v tags) self"

definition attr_val :: "string option \<Rightarrow> val" where
  "attr_val v = (case v of None \<Rightarrow> NoneV | Some s \<Rightarrow> StrV s)"

subsection \<open>Construction\<close>

definition setup_configured_stats :: "modules \<Rightarrow> instance_config \<Rightarrow> (string \<times> bool) list" where
  "setup_configured_stats M inst =
     fold (\<lambda>(category, prefix) collect.
             if collect_enabled inst prefix then AList.update category True collect else collect)
          (METRIC_CATEGORIES M) []"

text \<open>\<open>query.get('tag_keys', [])\<close>.\<close>

definition query_tag_keys :: "query \<Rightarrow> string list" where
  "query_tag_keys q = (case tag_keys q of None \<Rightarrow> [] | Some ks \<Rightarrow> ks)"

text \<open>
  The loop of \<open>append_custom_queries\<close> over the custom queries, on the two local
  dictionaries and \<open>self.collect_stats\<close>.  A failed validation or a missing key raises.
\<close>

fun custom_queries_loop ::
  "modules \<Rightarrow> query list \<Rightarrow>
   (string \<times> string list) list \<times> (string \<times> string) list \<times> (string \<times> bool) list \<Rightarrow>
   exn + (string \<times> string list) list \<times> (string \<times> string) list \<times> (string \<times> bool) list" where
  "custom_queries_loop M [] acc = Inr acc"
| "custom_queries_loop M (q # qs) (custom_recursion_tags, custom_metric_categories, collect) =
     (case validate_query M q of
        Some e \<Rightarrow> Inl e
      | None \<Rightarrow>
         (case metric_prefix q of
            None \<Rightarrow> Inl (Exn KeyError ''metric_prefix'')
          | Some p \<Rightarrow>
             (case stat q of
                None \<Rightarrow> Inl (Exn KeyError ''stat'')
              | Some s \<Rightarrow>
                  custom_queries_loop M qs
                    (AList.update p (query_tag_keys q) custom_recursion_tags,
                     AList.update s p custom_metric_categories,
                     AList.update s True collect))))"

text \<open>The result is the pair the method returns, and \<open>self.collect_stats\<close> after the loop.\<close>

definition append_custom_queries ::
  "modules \<Rightarrow> query list \<Rightarrow> (string \<times> bool) list \<Rightarrow>
   exn + (string \<times> string list) list \<times> (string \<times> string) list \<times> (string \<times> bool) list" where
  "append_custom_queries M queries collect =
     (case custom_queries_loop M queries ([], [], collect) of
        Inl e \<Rightarrow> Inl e
      | Inr (custom_recursion_tags, custom_metric_categories, collect') \<Rightarrow>
          Inr (dict_merge (NESTED_TAGS M) custom_recursion_tags,
               dict_merge (METRIC_CATEGORIES M) custom_metric_categories,
               collect'))"

definition parse_http_options :: "instance_config \<Rightarrow> http_options" where
  "parse_http_options inst =
     \<lparr>auth =
        (case (username inst, password inst) of
           (Some u, Some p) \<Rightarrow> if u \<noteq> [] \<and> p \<noteq> [] then Some (u, p) else None
         | _ \<Rightarrow> None),
      cert =
        (case tls_cert inst of
           None \<Rightarrow> No_cert
         | Some c \<Rightarrow>
            (case tls_private_key inst of None \<Rightarrow> Cert_file c | Some k \<Rightarrow> Cert_pair c k)),
      verify =
        (case tls_ca_cert inst of
           Some ca \<Rightarrow> Verify_path ca
         | None \<Rightarrow> if \<not> tls_verify inst then Verify_bool False else Verify_bool True)\<rparr>"

text \<open>\<open>__init__\<close>: the object, or the exception that ends the construction.\<close>

definition init :: "modules \<Rightarrow> instance_config \<Rightarrow> exn + check" where
  "init M inst =
     (case append_custom_queries M (inst_custom_queries inst) (setup_configured_stats M inst) of
        Inl e \<Rightarrow> Inl e
      | Inr (nested, categories, collect) \<Rightarrow>
          Inr \<lparr>url = servlet_url inst,
               custom_queries = inst_custom_queries inst,
               custom_queries_units_gauge = set (inst_custom_queries_units_gauge inst),
               custom_tags = inst_tags inst,
               collect_stats = collect,
               nested_tags = nested,
               metric_categories = categories,
               custom_stats = set (map fst nested),
               service_check_tags = inst_tags inst @ [''url:'' @ fmt (servlet_url inst)],
               check_http_options = parse_http_options inst,
               emitted = []\<rparr>)"


subsection \<open>Service checks and the request\<close>

definition submit_service_checks :: "service_status \<Rightarrow> check \<Rightarrow> check" where
  "submit_service_checks value self =
     emit (Service_check SERVICE_CHECK_CONNECT value (service_check_tags self))
       (submit GAUGE SERVICE_CHECK_CONNECT (IntV (if value = OK then 1 else 0))
          (service_check_tags self) self)"

text \<open>
  The handler of \<open>make_request\<close>: an \<open>HTTPError\<close> or a \<open>ConnectionError\<close> is reported and
  raised again, any other exception passes through untouched.
\<close>

definition request_failed :: "exn \<Rightarrow> check \<Rightarrow> (exn + string) \<times> check" where
  "request_failed e self =
     (if cls e = HTTPError \<or> cls e = ConnectionError then
        (Inl e,
         submit_service_checks CRITICAL
           (emit (Warning (''Couldn't connect to URL: '' @ fmt (url self) @ '' with exception: ''
                           @ msg e @ ''. Please verify the address is reachable'')) self))
      else (Inl e, self))"

definition make_request :: "modules \<Rightarrow> check \<Rightarrow> (exn + string) \<times> check" where
  "make_request M self =
     (case requests_get M (url self) (check_http_options self) of
        Inl e \<Rightarrow> request_failed e self
      | Inr resp \<Rightarrow>
         (case raise_for_status resp of
            Some e \<Rightarrow> request_failed e self
          | None \<Rightarrow> (Inr (content resp), submit_service_checks OK self)))"

subsection \<open>The walk over the statistics tree\<close>

text \<open>
  \<open>submit_metrics\<close>.  The two dictionary subscripts raise \<open>KeyError\<close> on a missing key,
  and \<open>ensure_text\<close> raises \<open>TypeError\<close> when the leaf has no \<open>name\<close> attribute.
\<close>

definition submit_metrics ::
  "modules \<Rightarrow> xml \<Rightarrow> string \<Rightarrow> string list \<Rightarrow> check \<Rightarrow> exn option \<times> check" where
  "submit_metrics M child prefix tags self =
     (case map_of (METRIC_VALUE_FIELDS M) (tag child) of
        None \<Rightarrow> (Some (Exn KeyError (tag child)), self)
      | Some field \<Rightarrow>
         (case get child ''name'' of
            None \<Rightarrow> (Some (Exn TypeError ''not expecting type NoneType''), self)
          | Some name \<Rightarrow>
             (let v = attr_val (get child field);
                  metric_name = normalize M name (METRIC_PREFIX @ ''.'' @ prefix);
                  t = (if (case get child ''unit'' of
                             None \<Rightarrow> False
                           | Some u \<Rightarrow> u \<in> custom_queries_units_gauge self)
                          \<and> prefix \<in> custom_stats self
                          \<and> tag child = ''CountStatistic''
                       then ''TimeStatistic'' else tag child)
              in (case map_of metric_type_mapping t of
                    None \<Rightarrow> (Some (Exn KeyError t), self)
                  | Some k \<Rightarrow>
                     (let self1 = submit k metric_name v tags self
                      in if prefix = ''jvm''
                         then (None, submit GAUGE (metric_name @ ''_gauge'') v tags self1)
                         else (None, self1))))))"

text \<open>The tag set \<open>process_stats\<close> recurses with below an interior node (lines 125 to 129).\<close>

definition recursion_tags :: "check \<Rightarrow> xml \<Rightarrow> string \<Rightarrow> string list \<Rightarrow> nat \<Rightarrow> string list" where
  "recursion_tags self child prefix tags recursion_level =
     (case map_of (nested_tags self) prefix of
        None \<Rightarrow> tags
      | Some tag_list \<Rightarrow>
          if tag_list \<noteq> [] \<and> length tag_list > recursion_level
          then tags @ [tag_list ! recursion_level @ '':'' @ fmt (get child ''name'')]
          else tags)"

text \<open>
  \<open>process_stats\<close> on the children it iterates over.  An exception of \<open>submit_metrics\<close>
  ends the walk; what was emitted before it stays emitted.
\<close>

fun process_stats ::
  "modules \<Rightarrow> xml list \<Rightarrow> string \<Rightarrow> string list \<Rightarrow> nat \<Rightarrow> check \<Rightarrow> exn option \<times> check" where
  "process_stats M [] prefix tags recursion_level self = (None, self)"
| "process_stats M (Element t attrs cs # rest) prefix tags recursion_level self =
     (if t \<in> fst ` set (METRIC_VALUE_FIELDS M) then
        (case submit_metrics M (Element t attrs cs) prefix tags self of
           (Some e, self1) \<Rightarrow> (Some e, self1)
         | (None, self1) \<Rightarrow> process_stats M rest prefix tags recursion_level self1)
      else if t \<in> set (CATEGORY_FIELDS M) then
        (case process_stats M cs prefix
                (recursion_tags self (Element t attrs cs) prefix tags recursion_level)
                (recursion_level + 1) self of
           (Some e, self1) \<Rightarrow> (Some e, self1)
         | (None, self1) \<Rightarrow> process_stats M rest prefix tags recursion_level self1)
      else process_stats M rest prefix tags recursion_level self)"


subsection \<open>One execution of the check\<close>

text \<open>
  \<open>get_node_from_name\<close> gives what \<open>process_stats\<close> then iterates over: the children of
  the first element found, or nothing (with a warning) when none is found.
\<close>

definition get_node_from_name ::
  "modules \<Rightarrow> xml \<Rightarrow> string \<Rightarrow> check \<Rightarrow> (exn + xml list) \<times> check" where
  "get_node_from_name M xml_data path self =
     (case xpath M xml_data
             (''.//Stat[normalize-space(@name)='' @ [CHR 0x22] @ path @ [CHR 0x22] @ '']'') of
        Inl e \<Rightarrow> (Inl e, self)
      | Inr [] \<Rightarrow>
          (Inr [], emit (Warning (''Error finding '' @ path @ '' stats in XML output.'')) self)
      | Inr (d # ds) \<Rightarrow> (Inr (children d), self))"

text \<open>The loop of line 96 over the items of \<open>self.metric_categories\<close>.\<close>

fun category_loop ::
  "modules \<Rightarrow> xml \<Rightarrow> string list \<Rightarrow> (string \<times> string) list \<Rightarrow> check \<Rightarrow> exn option \<times> check" where
  "category_loop M server server_tags [] self = (None, self)"
| "category_loop M server server_tags ((category, prefix) # rest) self =
     (let self0 = emit (Log_debug (''Collecting '' @ category @ '' stats'')) self
      in if map_of (collect_stats self0) category = Some True then
           (case get_node_from_name M server category self0 of
              (Inl e, self1) \<Rightarrow> (Some e, self1)
            | (Inr stats, self1) \<Rightarrow>
               (case process_stats M stats prefix server_tags 0 self1 of
                  (Some e, self2) \<Rightarrow> (Some e, self2)
                | (None, self2) \<Rightarrow> category_loop M server server_tags rest self2))
         else category_loop M server server_tags rest self0)"

text \<open>The loop of line 92 over the servers of a node.\<close>

fun server_loop ::
  "modules \<Rightarrow> string list \<Rightarrow> xml list \<Rightarrow> check \<Rightarrow> exn option \<times> check" where
  "server_loop M node_tags [] self = (None, self)"
| "server_loop M node_tags (server # rest) self =
     (case category_loop M server ((''server:'' @ fmt (get server ''name'')) # node_tags)
             (metric_categories self) self of
        (Some e, self1) \<Rightarrow> (Some e, self1)
      | (None, self1) \<Rightarrow> server_loop M node_tags rest self1)"

text \<open>The loop of line 87 over the nodes of the document.\<close>

fun node_loop :: "modules \<Rightarrow> xml list \<Rightarrow> check \<Rightarrow> exn option \<times> check" where
  "node_loop M [] self = (None, self)"
| "node_loop M (node # rest) self =
     (case server_loop M (custom_tags self @ [''node:'' @ fmt (get node ''name'')])
             (findall node ''Server'') self of
        (Some e, self1) \<Rightarrow> (Some e, self1)
      | (None, self1) \<Rightarrow> node_loop M rest self1)"

text \<open>
  \<open>check\<close>: the exception that leaves the method, if any, and the object afterwards.
  The handler of line 80 takes a \<open>ParseError\<close> only.
\<close>

definition check :: "modules \<Rightarrow> check \<Rightarrow> exn option \<times> check" where
  "check M self =
     (if url self = None \<or> url self = Some [] then
        (Some (Exn ValueError ''Please specify a servlet_url in the configuration file''), self)
      else
        (case make_request M self of
           (Inl e, self1) \<Rightarrow> (Some e, self1)
         | (Inr data, self1) \<Rightarrow>
            (case fromstring M data of
               Inl e \<Rightarrow>
                 if cls e = ParseError then
                   (None,
                    emit (Log_error (''Unable to parse the XML response: '' @ msg e))
                      (submit_service_checks CRITICAL self1))
                 else (Some e, self1)
             | Inr server_data_xml \<Rightarrow> node_loop M (findall server_data_xml ''Node'') self1)))"

section \<open>Properties of a run\<close>

subsection \<open>Reading the trace of the collection loop\<close>

text \<open>What the call recorded by an event does in the iteration: the exception it raises, if any.\<close>

fun raised_by :: "'p cycle_env \<Rightarrow> 'p event \<Rightarrow> exn option" where
  "raised_by env Get_hostname = (case get_hostname env of Inl e \<Rightarrow> Some e | Inr h \<Rightarrow> None)"
| "raised_by env (Get_metadata h v s) =
     (case get_metadata env h v s of Inl e \<Rightarrow> Some e | Inr md \<Rightarrow> None)"
| "raised_by env (Submit_metadata md) = submit_metadata env md"
| "raised_by env Run_checks = run_checks env"
| "raised_by env Serialize_and_push = serialize_and_push env"
| "raised_by env (Log_exception e) = None"
| "raised_by env (Sleep d) = None"

definition ends_with :: "'a list \<Rightarrow> 'a list \<Rightarrow> bool" where
  "ends_with t xs \<longleftrightarrow> length xs \<le> length t \<and> drop (length t - length xs) t = xs"

text \<open>
  An iteration is isolated when its trace ends with the sleep, and every call of it that
  raises is followed by the log line of the handler and the sleep, and by nothing else.
\<close>

definition isolated :: "config \<Rightarrow> 'p cycle_env \<Rightarrow> 'p event list \<Rightarrow> bool" where
  "isolated cfg env t \<longleftrightarrow>
     ends_with t [Sleep (min_collection_interval cfg)] \<and>
     (\<forall>ev\<in>set t.
        case raised_by env ev of
          None \<Rightarrow> True
        | Some e \<Rightarrow> ends_with t [ev, Log_exception e, Sleep (min_collection_interval cfg)])"

text \<open>The calls that build and submit the metadata payload.\<close>

fun is_metadata_call :: "'p event \<Rightarrow> bool" where
  "is_metadata_call (Get_metadata h v s) = True"
| "is_metadata_call (Submit_metadata md) = True"
| "is_metadata_call ev = False"

text \<open>
  Whether building or submitting the metadata raises in the iteration, when the payload
  is built with the given start-event flag.
\<close>

definition metadata_fails :: "'p cycle_env \<Rightarrow> bool \<Rightarrow> bool" where
  "metadata_fails env start =
     (case get_hostname env of
        Inl e \<Rightarrow> True
      | Inr h \<Rightarrow>
         (case get_metadata env h AGENT_VERSION start of
            Inl e \<Rightarrow> True
          | Inr md \<Rightarrow> submit_metadata env md \<noteq> None))"

text \<open>
  A metadata call carries the start-event flag when it builds the payload with the flag
  set, or submits a payload built so.
\<close>

fun carries_start_event :: "'p cycle_env \<Rightarrow> 'p event \<Rightarrow> bool" where
  "carries_start_event env (Get_metadata h v s) = s"
| "carries_start_event env (Submit_metadata md) =
     (case get_hostname env of
        Inl e \<Rightarrow> False
      | Inr h \<Rightarrow> get_metadata env h AGENT_VERSION True = Inr md)"
| "carries_start_event env ev = True"

text \<open>
  The trace of an iteration that tries the metadata again: it starts on the metadata
  branch, and its metadata calls carry the start-event flag.
\<close>

definition retry_cycle :: "'p cycle_env \<Rightarrow> 'p event list \<Rightarrow> bool" where
  "retry_cycle env t \<longleftrightarrow>
     (case t of [] \<Rightarrow> False | ev # evs \<Rightarrow> ev = Get_hostname) \<and>
     (\<forall>ev\<in>set t. carries_start_event env ev)"

subsection \<open>Reading what a check emitted\<close>

text \<open>
  \<open>only_emits self self'\<close>: the object \<open>self'\<close> is \<open>self\<close> with more emitted, every
  other attribute as it was.  \<open>new_emitted\<close> is what was emitted in between.
\<close>

definition only_emits :: "check \<Rightarrow> check \<Rightarrow> bool" where
  "only_emits self self' \<longleftrightarrow>
     self'\<lparr>emitted := []\<rparr> = self\<lparr>emitted := []\<rparr> \<and>
     take (length (emitted self)) (emitted self') = emitted self"

definition new_emitted :: "check \<Rightarrow> check \<Rightarrow> emission list" where
  "new_emitted self self' = drop (length (emitted self)) (emitted self')"

text \<open>Running one step after another: an exception of the first ends the sequence.\<close>

definition and_then ::
  "exn option \<times> check \<Rightarrow> (check \<Rightarrow> exn option \<times> check) \<Rightarrow> exn option \<times> check" where
  "and_then r f = (case r of (Some e, self) \<Rightarrow> (Some e, self) | (None, self) \<Rightarrow> f self)"

text \<open>The three conditions of lines 139 to 143, under which a count is submitted as a gauge.\<close>

definition reinterpreted :: "check \<Rightarrow> xml \<Rightarrow> string \<Rightarrow> bool" where
  "reinterpreted self child prefix \<longleftrightarrow>
     tag child = ''CountStatistic'' \<and>
     (case get child ''unit'' of None \<Rightarrow> False | Some u \<Rightarrow> u \<in> custom_queries_units_gauge self) \<and>
     prefix \<in> custom_stats self"

subsection \<open>Example inputs\<close>

definition example_config :: config where
  "example_config = \<lparr>host_metadata_interval = 14400, min_collection_interval = 15\<rparr>"

text \<open>An iteration at the given clock reading in which every collaborator returns.\<close>

definition healthy :: "real \<Rightarrow> (string \<times> string \<times> bool) cycle_env" where
  "healthy now =
     \<lparr>monotonic = now,
      get_hostname = Inr ''host1'',
      get_metadata = (\<lambda>h v s. Inr (h, v, s)),
      submit_metadata = (\<lambda>md. None),
      run_checks = None,
      serialize_and_push = None,
      stop_requested = False\<rparr>"

definition boom :: exn where
  "boom = Exn OtherException ''boom''"

definition example_modules :: modules where
  "example_modules =
     \<lparr>METRIC_VALUE_FIELDS = [(''CountStatistic'', ''count''), (''TimeStatistic'', ''totalTime'')],
      CATEGORY_FIELDS = [''Stat''],
      NESTED_TAGS = [(''jdbc'', [''provider'', ''dataSource''])],
      METRIC_CATEGORIES = [(''JVM Runtime'', ''jvm''), (''JDBC Connection Pools'', ''jdbc'')],
      validate_query = (\<lambda>q. None),
      normalize = (\<lambda>name prefix. prefix @ ''.'' @ name),
      requests_get = (\<lambda>u opts. Inr \<lparr>raise_for_status = None, content = ''<doc>''\<rparr>),
      fromstring = (\<lambda>data. Inl (Exn XMLSyntaxError ''Premature end of data in tag doc'')),
      xpath = (\<lambda>x expr. Inr [])\<rparr>"

definition example_instance :: instance_config where
  "example_instance =
     \<lparr>servlet_url = Some ''http://was/perf'',
      inst_custom_queries =
        [\<lparr>stat = Some ''Object Pool'', metric_prefix = Some ''object_pool'',
          tag_keys = Some [''implementation'']\<rparr>],
      inst_custom_queries_units_gauge = [''unit.none''],
      inst_tags = [''env:test''],
      collect_enabled = (\<lambda>p. True),
      username = None,
      password = None,
      tls_verify = True,
      tls_cert = None,
      tls_private_key = None,
      tls_ca_cert = None\<rparr>"

definition example_check :: check where
  "example_check =
     \<lparr>url = Some ''http://was/perf'',
      custom_queries =
        [\<lparr>stat = Some ''Object Pool'', metric_prefix = Some ''object_pool'',
          tag_keys = Some [''implementation'']\<rparr>],
      custom_queries_units_gauge = {''unit.none''},
      custom_tags = [''env:test''],
      collect_stats =
        [(''JVM Runtime'', True), (''JDBC Connection Pools'', True), (''Object Pool'', True)],
      nested_tags =
        [(''jdbc'', [''provider'', ''dataSource'']), (''object_pool'', [''implementation''])],
      metric_categories =
        [(''JVM Runtime'', ''jvm''), (''JDBC Connection Pools'', ''jdbc''),
         (''Object Pool'', ''object_pool'')],
      custom_stats = {''jdbc'', ''object_pool''},
      service_check_tags = [''env:test'', ''url:http://was/perf''],
      check_http_options = \<lparr>auth = None, cert = No_cert, verify = Verify_bool True\<rparr>,
      emitted = []\<rparr>"

text \<open>
  An instance whose custom queries collide: the first names a built-in category, the
  second and the third name the same new category.
\<close>

definition colliding_instance :: instance_config where
  "colliding_instance =
     example_instance\<lparr>inst_custom_queries :=
       [\<lparr>stat = Some ''JVM Runtime'', metric_prefix = Some ''jvm_custom'', tag_keys = None\<rparr>,
        \<lparr>stat = Some ''Object Pool'', metric_prefix = Some ''pool_a'',
          tag_keys = Some [''kind'']\<rparr>,
        \<lparr>stat = Some ''Object Pool'', metric_prefix = Some ''pool_b'',
          tag_keys = Some [''implementation'']\<rparr>]\<rparr>"

definition colliding_check :: check where
  "colliding_check =
     \<lparr>url = Some ''http://was/perf'',
      custom_queries = inst_custom_queries colliding_instance,
      custom_queries_units_gauge = {''unit.none''},
      custom_tags = [''env:test''],
      collect_stats =
        [(''JVM Runtime'', True), (''JDBC Connection Pools'', True), (''Object Pool'', True)],
      nested_tags =
        [(''jdbc'', [''provider'', ''dataSource'']), (''jvm_custom'', []),
         (''pool_a'', [''kind'']), (''pool_b'', [''implementation''])],
      metric_categories =
        [(''JVM Runtime'', ''jvm_custom''), (''JDBC Connection Pools'', ''jdbc''),
         (''Object Pool'', ''pool_b'')],
      custom_stats = {''jdbc'', ''jvm_custom'', ''pool_a'', ''pool_b''},
      service_check_tags = [''env:test'', ''url:http://was/perf''],
      check_http_options = \<lparr>auth = None, cert = No_cert, verify = Verify_bool True\<rparr>,
      emitted = []\<rparr>"

text \<open>The same instance without custom queries, and the check the constructor builds.\<close>

definition builtin_instance :: instance_config where
  "builtin_instance = example_instance\<lparr>inst_custom_queries := []\<rparr>"

definition builtin_check :: check where
  "builtin_check =
     \<lparr>url = Some ''http://was/perf'',
      custom_queries = [],
      custom_queries_units_gauge = {''unit.none''},
      custom_tags = [''env:test''],
      collect_stats = [(''JVM Runtime'', True), (''JDBC Connection Pools'', True)],
      nested_tags = [(''jdbc'', [''provider'', ''dataSource''])],
      metric_categories = [(''JVM Runtime'', ''jvm''), (''JDBC Connection Pools'', ''jdbc'')],
      custom_stats = {''jdbc''},
      service_check_tags = [''env:test'', ''url:http://was/perf''],
      check_http_options = \<lparr>auth = None, cert = No_cert, verify = Verify_bool True\<rparr>,
      emitted = []\<rparr>"

text \<open>
  An instance whose one custom query names a new category and the metric prefix of a
  built-in one.
\<close>

definition shadowing_instance :: instance_config where
  "shadowing_instance =
     example_instance\<lparr>inst_custom_queries :=
       [\<lparr>stat = Some ''Thread Pools'', metric_prefix = Some ''jdbc'',
         tag_keys = Some [''pool'']\<rparr>]\<rparr>"

definition shadowing_check :: check where
  "shadowing_check =
     \<lparr>url = Some ''http://was/perf'',
      custom_queries = inst_custom_queries shadowing_instance,
      custom_queries_units_gauge = {''unit.none''},
      custom_tags = [''env:test''],
      collect_stats =
        [(''JVM Runtime'', True), (''JDBC Connection Pools'', True), (''Thread Pools'', True)],
      nested_tags = [(''jdbc'', [''pool''])],
      metric_categories =
        [(''JVM Runtime'', ''jvm''), (''JDBC Connection Pools'', ''jdbc''),
         (''Thread Pools'', ''jdbc'')],
      custom_stats = {''jdbc''},
      service_check_tags = [''env:test'', ''url:http://was/perf''],
      check_http_options = \<lparr>auth = None, cert = No_cert, verify = Verify_bool True\<rparr>,
      emitted = []\<rparr>"

definition count_leaf :: "string \<Rightarrow> xml" where
  "count_leaf name =
     Element ''CountStatistic''
       [(''name'', name), (''count'', ''5''), (''unit'', ''unit.none'')] []"

text \<open>
  A small document: node \<open>N1\<close>, server \<open>S1\<close>, and the statistics of the category
  \<open>JVM Runtime\<close> with one count.  \<open>document_modules\<close> is \<open>example_modules\<close> with a
  parser that gives this document and a search that finds the category in it.
\<close>

definition jvm_stat :: xml where
  "jvm_stat = Element ''Stat'' [(''name'', ''JVM Runtime'')] [count_leaf ''requestCount'']"

definition example_document :: xml where
  "example_document =
     Element ''PerformanceMonitor'' []
       [Element ''Node'' [(''name'', ''N1'')]
          [Element ''Server'' [(''name'', ''S1'')] [jvm_stat]]]"

definition document_modules :: modules where
  "document_modules =
     example_modules
       \<lparr>fromstring := (\<lambda>data. Inr example_document),
        xpath := (\<lambda>x expr.
          if expr = ''.//Stat[normalize-space(@name)='' @ [CHR 0x22] @ ''JVM Runtime''
                    @ [CHR 0x22] @ '']''
          then Inr [jvm_stat] else Inr [])\<rparr>"

section \<open>The collection loop: fault isolation, metadata, shutdown\<close>

subsection \<open>The loop, one iteration at a time\<close>

lemma collection_stopped: "event_set st \<Longrightarrow> collection cfg envs st = (Exited, st, [])"
  by simp

lemma collection_Nil: "\<not> event_set st \<Longrightarrow> collection cfg [] st = (Running, st, [])"
  by simp

lemma collection_Cons:
  "\<not> event_set st \<Longrightarrow>
   collection cfg (env # rest) st =
     (case cycle cfg env st of
        (st1, evs) \<Rightarrow>
          (case collection cfg rest (if stop_requested env then fst (stop st1) else st1) of
             (s, st2, tr) \<Rightarrow> (s, st2, evs # tr)))"
  by simp

declare collection.simps [simp del]

lemma metadata_step_event_set: "event_set (fst (metadata_step cfg env st)) = event_set st"
  by (simp add: metadata_step_def split: sum.splits option.splits)

lemma try_body_event_set: "event_set (fst (try_body cfg env st)) = event_set st"
proof (cases "metadata_step cfg env st")
  case (fields st1 evs r)
  with metadata_step_event_set [of cfg env st] have "event_set st1 = event_set st" by simp
  with fields show ?thesis
    by (simp add: try_body_def split: option.splits)
qed

lemma cycle_event_set: "event_set (fst (cycle cfg env st)) = event_set st"
proof (cases "try_body cfg env st")
  case (fields st1 evs r)
  with try_body_event_set [of cfg env st] have "event_set st1 = event_set st" by simp
  with fields show ?thesis
    by (simp add: cycle_def)
qed

lemma metadata_step_raise:
  "metadata_step cfg env st = (st1, evs, r) \<Longrightarrow> ev \<in> set evs \<Longrightarrow> raised_by env ev = Some e \<Longrightarrow>
   r = Some e \<and> (\<exists>pre. evs = pre @ [ev])"
  by (auto simp: metadata_step_def split: if_splits sum.splits option.splits)

lemma try_body_raise:
  "try_body cfg env st = (st1, evs, r) \<Longrightarrow> ev \<in> set evs \<Longrightarrow> raised_by env ev = Some e \<Longrightarrow>
   r = Some e \<and> (\<exists>pre. evs = pre @ [ev])"
  apply (cases "metadata_step cfg env st")
  subgoal for a b c
    apply (cases c)
    apply (auto simp: try_body_def split: option.splits dest: metadata_step_raise)
    done
  done

lemma ends_with_iff: "ends_with t xs \<longleftrightarrow> (\<exists>pre. t = pre @ xs)"
proof
  assume "ends_with t xs"
  then have "t = take (length t - length xs) t @ xs"
    by (metis append_take_drop_id ends_with_def)
  then show "\<exists>pre. t = pre @ xs" ..
next
  assume "\<exists>pre. t = pre @ xs"
  then show "ends_with t xs" by (auto simp: ends_with_def)
qed

lemma isolated_iff:
  "isolated cfg env t \<longleftrightarrow>
     (\<exists>pre. t = pre @ [Sleep (min_collection_interval cfg)]) \<and>
     (\<forall>ev\<in>set t. \<forall>e. raised_by env ev = Some e \<longrightarrow>
        (\<exists>pre. t = pre @ [ev, Log_exception e, Sleep (min_collection_interval cfg)]))"
  by (auto simp: isolated_def ends_with_iff split: option.splits)

lemma cycle_isolated: "isolated cfg env (snd (cycle cfg env st))"
proof (cases "try_body cfg env st")
  case (fields st1 evs r)
  show ?thesis
  proof (cases r)
    case None
    with fields have t: "snd (cycle cfg env st) = evs @ [Sleep (min_collection_interval cfg)]"
      by (simp add: cycle_def)
    have "raised_by env ev \<noteq> Some e" if "ev \<in> set evs" for ev e
      using try_body_raise [OF fields that, of e] None by auto
    with t show ?thesis
      by (auto simp: isolated_iff)
  next
    case (Some x)
    with fields have t: "snd (cycle cfg env st) =
        evs @ [Log_exception x, Sleep (min_collection_interval cfg)]"
      by (simp add: cycle_def)
    have "e = x \<and> (\<exists>pre. evs = pre @ [ev])"
      if "ev \<in> set evs" "raised_by env ev = Some e" for ev e
      using try_body_raise [OF fields that] Some by simp
    with t show ?thesis
      by (fastforce simp: isolated_iff)
  qed
qed

lemma cycle_ends_with_sleep:
  "\<exists>pre. snd (cycle cfg env st) = pre @ [Sleep (min_collection_interval cfg)]"
  using cycle_isolated [of cfg env st] by (simp add: isolated_iff)

text \<open>
  C3.  Whatever the metadata submission, the check batch and serialize-and-push do in
  an iteration, raise or return, the loop goes on: as long as nobody calls \<open>stop()\<close>,
  every iteration it is given is executed and the loop is still running afterwards.
  Every iteration ends with the sleep of the fixed delay, and an exception raised by a
  call is logged by the handler of that iteration, right before the sleep.
\<close>

theorem scheduler_fault_isolation:
  assumes "\<not> event_set st" and "\<forall>env\<in>set envs. \<not> stop_requested env"
  shows "\<exists>st' tr. collection cfg envs st = (Running, st', tr) \<and> \<not> event_set st' \<and>
     list_all2 (isolated cfg) envs tr"
  using assms
proof (induction envs arbitrary: st)
  case Nil
  then show ?case by (simp add: collection_Nil)
next
  case (Cons env rest)
  obtain st1 evs where c: "cycle cfg env st = (st1, evs)" by (cases "cycle cfg env st")
  with cycle_event_set [of cfg env st] Cons.prems have s1: "\<not> event_set st1" by simp
  from c cycle_isolated [of cfg env st] have iso: "isolated cfg env evs" by simp
  from Cons.prems have "\<forall>env\<in>set rest. \<not> stop_requested env" by simp
  from Cons.IH [OF s1 this] obtain st' tr where
    r: "collection cfg rest st1 = (Running, st', tr)" "\<not> event_set st'"
       "list_all2 (isolated cfg) rest tr" by blast
  from Cons.prems c r iso show ?case
    by (simp add: collection_Cons)
qed

theorem scheduler_fault_isolation_witness:
  "\<not> event_set init_runner \<and>
   \<not> stop_requested ((healthy 0)\<lparr>run_checks := Some boom\<rparr>) \<and>
   \<not> stop_requested ((healthy 15)\<lparr>serialize_and_push := Some boom\<rparr>) \<and>
   \<not> stop_requested (healthy 30) \<and>
   collection example_config
     [(healthy 0)\<lparr>run_checks := Some boom\<rparr>,
      (healthy 15)\<lparr>serialize_and_push := Some boom\<rparr>,
      healthy 30] init_runner =
     (Running, \<lparr>event_set = False, meta_ts = Some 0\<rparr>,
      [[Get_hostname, Get_metadata ''host1'' AGENT_VERSION True,
        Submit_metadata (''host1'', AGENT_VERSION, True),
        Run_checks, Log_exception boom, Sleep 15],
       [Run_checks, Serialize_and_push, Log_exception boom, Sleep 15],
       [Run_checks, Serialize_and_push, Sleep 15]]) \<and>
   list_all2 (isolated example_config)
     [(healthy 0)\<lparr>run_checks := Some boom\<rparr>,
      (healthy 15)\<lparr>serialize_and_push := Some boom\<rparr>,
      healthy 30]
     [[Get_hostname, Get_metadata ''host1'' AGENT_VERSION True,
       Submit_metadata (''host1'', AGENT_VERSION, True),
       Run_checks, Log_exception boom, Sleep 15],
      [Run_checks, Serialize_and_push, Log_exception boom, Sleep 15],
      [Run_checks, Serialize_and_push, Sleep 15]]"
proof -
  have c: "collection example_config
     [(healthy 0)\<lparr>run_checks := Some boom\<rparr>,
      (healthy 15)\<lparr>serialize_and_push := Some boom\<rparr>,
      healthy 30] init_runner =
     (Running, \<lparr>event_set = False, meta_ts = Some 0\<rparr>,
      [[Get_hostname, Get_metadata ''host1'' AGENT_VERSION True,
        Submit_metadata (''host1'', AGENT_VERSION, True),
        Run_checks, Log_exception boom, Sleep 15],
       [Run_checks, Serialize_and_push, Log_exception boom, Sleep 15],
       [Run_checks, Serialize_and_push, Sleep 15]])"
    by (simp add: collection_Cons collection_Nil init_runner_def healthy_def example_config_def
        cycle_def try_body_def metadata_step_def metadata_due_def)
  from scheduler_fault_isolation
    [of init_runner
        "[(healthy 0)\<lparr>run_checks := Some boom\<rparr>,
          (healthy 15)\<lparr>serialize_and_push := Some boom\<rparr>,
          healthy 30]" example_config]
  show ?thesis
    unfolding c by (simp add: init_runner_def healthy_def)
qed

subsection \<open>When the metadata is submitted\<close>

lemma try_body_events:
  "try_body cfg env st = (st1, evs, r) \<Longrightarrow> metadata_step cfg env st = (st2, mevs, mr) \<Longrightarrow>
   st1 = st2 \<and> filter is_metadata_call evs = filter is_metadata_call mevs \<and>
   (\<exists>more. evs = mevs @ more)"
  by (cases mr) (auto simp: try_body_def split: option.splits)

lemma cycle_events:
  "metadata_step cfg env st = (st2, mevs, mr) \<Longrightarrow>
   fst (cycle cfg env st) = st2 \<and>
   filter is_metadata_call (snd (cycle cfg env st)) = filter is_metadata_call mevs \<and>
   (\<exists>more. snd (cycle cfg env st) = mevs @ more @ [Sleep (min_collection_interval cfg)])"
proof (cases "try_body cfg env st")
  case (fields st1 evs r)
  assume "metadata_step cfg env st = (st2, mevs, mr)"
  from try_body_events [OF fields this] fields show ?thesis
    by (auto simp: cycle_def split: option.splits)
qed

lemma cycle_not_due:
  assumes "meta_ts st = Some ts" "monotonic env - ts < host_metadata_interval cfg"
  shows "filter is_metadata_call (snd (cycle cfg env st)) = [] \<and>
         Get_hostname \<notin> set (snd (cycle cfg env st)) \<and>
         meta_ts (fst (cycle cfg env st)) = Some ts"
proof -
  from assms have m: "metadata_step cfg env st = (st, [], None)"
    by (simp add: metadata_step_def metadata_due_def)
  then have "try_body cfg env st = (st, [Run_checks], run_checks env) \<or>
    try_body cfg env st = (st, [Run_checks, Serialize_and_push], serialize_and_push env)"
    by (auto simp: try_body_def split: option.splits)
  with assms show ?thesis
    by (auto simp: cycle_def split: option.splits)
qed

lemma cycle_submits:
  assumes "metadata_due cfg env st" "get_hostname env = Inr h"
    "get_metadata env h AGENT_VERSION (meta_ts st = None) = Inr md" "submit_metadata env md = None"
  shows "filter is_metadata_call (snd (cycle cfg env st)) =
           [Get_metadata h AGENT_VERSION (meta_ts st = None), Submit_metadata md] \<and>
         meta_ts (fst (cycle cfg env st)) = Some (monotonic env)"
proof -
  from assms have "metadata_step cfg env st =
     (st\<lparr>meta_ts := Some (monotonic env)\<rparr>,
      [Get_hostname, Get_metadata h AGENT_VERSION (meta_ts st = None), Submit_metadata md], None)"
    by (simp add: metadata_step_def)
  from cycle_events [OF this] show ?thesis by simp
qed

text \<open>
  C4.  The runner starts with no submission recorded.  In an iteration that starts so
  (the first one), and in which the hostname lookup, the construction of the payload and
  its submission return, the payload is built with the start-event flag set and is
  submitted, and the clock reading of the iteration is recorded.  In an iteration that
  starts with a recorded submission less than the host-metadata interval old, nothing
  is built or submitted and the record stays.  Once the interval has elapsed, the
  payload is built with the flag unset and submitted, and the reading is recorded.
\<close>

theorem metadata_schedule:
  "meta_ts init_runner = None \<and>
   (meta_ts st = None \<and> get_hostname env = Inr h \<and>
    get_metadata env h AGENT_VERSION True = Inr md \<and> submit_metadata env md = None \<longrightarrow>
      filter is_metadata_call (snd (cycle cfg env st)) =
        [Get_metadata h AGENT_VERSION True, Submit_metadata md] \<and>
      meta_ts (fst (cycle cfg env st)) = Some (monotonic env)) \<and>
   (meta_ts st = Some ts \<and> monotonic env - ts < host_metadata_interval cfg \<longrightarrow>
      filter is_metadata_call (snd (cycle cfg env st)) = [] \<and>
      Get_hostname \<notin> set (snd (cycle cfg env st)) \<and>
      meta_ts (fst (cycle cfg env st)) = Some ts) \<and>
   (meta_ts st = Some ts \<and> monotonic env - ts \<ge> host_metadata_interval cfg \<and>
    get_hostname env = Inr h \<and>
    get_metadata env h AGENT_VERSION False = Inr md \<and> submit_metadata env md = None \<longrightarrow>
      filter is_metadata_call (snd (cycle cfg env st)) =
        [Get_metadata h AGENT_VERSION False, Submit_metadata md] \<and>
      meta_ts (fst (cycle cfg env st)) = Some (monotonic env))"
proof -
  have first: "filter is_metadata_call (snd (cycle cfg env st)) =
        [Get_metadata h AGENT_VERSION True, Submit_metadata md] \<and>
      meta_ts (fst (cycle cfg env st)) = Some (monotonic env)"
    if "meta_ts st = None" "get_hostname env = Inr h"
      "get_metadata env h AGENT_VERSION True = Inr md" "submit_metadata env md = None"
    using cycle_submits [of cfg env st h md] that by (simp add: metadata_due_def)
  have later: "filter is_metadata_call (snd (cycle cfg env st)) =
        [Get_metadata h AGENT_VERSION False, Submit_metadata md] \<and>
      meta_ts (fst (cycle cfg env st)) = Some (monotonic env)"
    if "meta_ts st = Some ts" "monotonic env - ts \<ge> host_metadata_interval cfg"
      "get_hostname env = Inr h"
      "get_metadata env h AGENT_VERSION False = Inr md" "submit_metadata env md = None"
    using cycle_submits [of cfg env st h md] that by (simp add: metadata_due_def)
  from first later cycle_not_due [of st ts env cfg] show ?thesis
    by (simp add: init_runner_def)
qed

theorem metadata_schedule_witness:
  "meta_ts init_runner = None \<and>
   filter is_metadata_call (snd (cycle example_config (healthy 100) init_runner)) =
     [Get_metadata ''host1'' AGENT_VERSION True,
      Submit_metadata (''host1'', AGENT_VERSION, True)] \<and>
   meta_ts (fst (cycle example_config (healthy 100) init_runner)) = Some 100 \<and>
   filter is_metadata_call
     (snd (cycle example_config (healthy 115) (init_runner\<lparr>meta_ts := Some 100\<rparr>))) = [] \<and>
   meta_ts (fst (cycle example_config (healthy 115) (init_runner\<lparr>meta_ts := Some 100\<rparr>))) =
     Some 100 \<and>
   filter is_metadata_call
     (snd (cycle example_config (healthy 14500) (init_runner\<lparr>meta_ts := Some 100\<rparr>))) =
     [Get_metadata ''host1'' AGENT_VERSION False,
      Submit_metadata (''host1'', AGENT_VERSION, False)] \<and>
   meta_ts (fst (cycle example_config (healthy 14500) (init_runner\<lparr>meta_ts := Some 100\<rparr>))) =
     Some 14500"
  using
    metadata_schedule [of init_runner "healthy 100" "''host1''"
      "(''host1'', AGENT_VERSION, True)" example_config 0]
    metadata_schedule [of "init_runner\<lparr>meta_ts := Some 100\<rparr>" "healthy 115" "''host1''"
      "(''host1'', AGENT_VERSION, True)" example_config 100]
    metadata_schedule [of "init_runner\<lparr>meta_ts := Some 100\<rparr>" "healthy 14500" "''host1''"
      "(''host1'', AGENT_VERSION, False)" example_config 100]
  by (simp add: init_runner_def healthy_def example_config_def)

subsection \<open>A metadata submission that fails\<close>

lemma cycle_meta_ts:
  "meta_ts (fst (cycle cfg env st)) =
     (if metadata_due cfg env st \<and> \<not> metadata_fails env (meta_ts st = None)
      then Some (monotonic env) else meta_ts st)"
proof (cases "metadata_step cfg env st")
  case (fields st2 mevs mr)
  from cycle_events [OF fields] have "fst (cycle cfg env st) = st2" by simp
  moreover from fields have "meta_ts st2 =
     (if metadata_due cfg env st \<and> \<not> metadata_fails env (meta_ts st = None)
      then Some (monotonic env) else meta_ts st)"
    by (auto simp: metadata_step_def metadata_fails_def split: if_splits sum.splits option.splits)
  ultimately show ?thesis by simp
qed

lemma metadata_step_retry:
  assumes "meta_ts st = None" "metadata_fails env True"
  shows "\<exists>mevs e. metadata_step cfg env st = (st, mevs, Some e) \<and> retry_cycle env mevs"
proof -
  consider (hostname) e where "get_hostname env = Inl e"
    | (build) h e where "get_hostname env = Inr h" "get_metadata env h AGENT_VERSION True = Inl e"
    | (submit) h md e where "get_hostname env = Inr h"
        "get_metadata env h AGENT_VERSION True = Inr md" "submit_metadata env md = Some e"
    using assms(2) by (auto simp: metadata_fails_def split: sum.splits)
  then show ?thesis
  proof cases
    case hostname
    with assms(1) show ?thesis
      by (simp add: metadata_step_def metadata_due_def retry_cycle_def)
  next
    case build
    with assms(1) show ?thesis
      by (simp add: metadata_step_def metadata_due_def retry_cycle_def)
  next
    case submit
    with assms(1) show ?thesis
      by (simp add: metadata_step_def metadata_due_def retry_cycle_def)
  qed
qed

lemma cycle_retry:
  assumes "meta_ts st = None" "metadata_fails env True"
  shows "retry_cycle env (snd (cycle cfg env st)) \<and> meta_ts (fst (cycle cfg env st)) = None"
proof -
  from metadata_step_retry [OF assms, of cfg] obtain mevs e where
    m: "metadata_step cfg env st = (st, mevs, Some e)" and rc: "retry_cycle env mevs"
    by blast
  from m have "try_body cfg env st = (st, mevs, Some e)"
    by (simp add: try_body_def)
  then have "cycle cfg env st =
      (st, mevs @ [Log_exception e, Sleep (min_collection_interval cfg)])"
    by (simp add: cycle_def)
  with rc assms show ?thesis
    by (cases mevs) (auto simp: retry_cycle_def)
qed

lemma collection_retry:
  "meta_ts st = None \<Longrightarrow> \<not> event_set st \<Longrightarrow>
   \<forall>env\<in>set envs. \<not> stop_requested env \<and> metadata_fails env True \<Longrightarrow>
   \<exists>st' tr. collection cfg envs st = (Running, st', tr) \<and> meta_ts st' = None \<and>
     list_all2 retry_cycle envs tr"
proof (induction envs arbitrary: st)
  case Nil
  then show ?case by (simp add: collection_Nil)
next
  case (Cons env rest)
  obtain st1 evs where c: "cycle cfg env st = (st1, evs)" by (cases "cycle cfg env st")
  with cycle_event_set [of cfg env st] Cons.prems have s1: "\<not> event_set st1" by simp
  from Cons.prems have "metadata_fails env True" by simp
  from cycle_retry [OF Cons.prems(1) this, of cfg] c
  have rc: "retry_cycle env evs" and m1: "meta_ts st1 = None" by simp_all
  from Cons.prems have "\<forall>env\<in>set rest. \<not> stop_requested env \<and> metadata_fails env True" by simp
  from Cons.IH [OF m1 s1 this] obtain st' tr where
    r: "collection cfg rest st1 = (Running, st', tr)" "meta_ts st' = None"
       "list_all2 retry_cycle rest tr" by blast
  from Cons.prems c r rc show ?case
    by (simp add: collection_Cons)
qed

text \<open>
  C10.  The recorded timestamp changes in an iteration exactly when the metadata was due
  and building and submitting it returned; it then becomes the clock reading of that
  iteration.  When building or submitting raises, the timestamp is as before, so the
  metadata is due again in any later iteration (the clock does not go back); and so is
  the state in which nothing was ever submitted: as long as every iteration fails so,
  each of them starts on the metadata branch again, every payload is built and submitted
  with the start-event flag set, and nothing is recorded.
\<close>

theorem metadata_timestamp_after_success:
  "meta_ts (fst (cycle cfg env st)) =
     (if metadata_due cfg env st \<and> \<not> metadata_fails env (meta_ts st = None)
      then Some (monotonic env) else meta_ts st) \<and>
   (metadata_due cfg env st \<and> metadata_fails env (meta_ts st = None) \<and>
    monotonic env \<le> monotonic env' \<longrightarrow>
      metadata_due cfg env' (fst (cycle cfg env st))) \<and>
   (meta_ts st = None \<and> \<not> event_set st \<and>
    (\<forall>e\<in>set envs. \<not> stop_requested e \<and> metadata_fails e True) \<longrightarrow>
      (\<exists>st' tr. collection cfg envs st = (Running, st', tr) \<and> meta_ts st' = None \<and>
         list_all2 retry_cycle envs tr))"
proof -
  have "metadata_due cfg env' (fst (cycle cfg env st))"
    if "metadata_due cfg env st" "metadata_fails env (meta_ts st = None)"
      "monotonic env \<le> monotonic env'"
    using that cycle_meta_ts [of cfg env st]
    by (auto simp: metadata_due_def split: option.splits)
  with cycle_meta_ts [of cfg env st] collection_retry [of st envs cfg] show ?thesis
    by blast
qed

theorem metadata_timestamp_after_success_witness:
  "meta_ts (fst (cycle example_config
      ((healthy 100)\<lparr>submit_metadata := (\<lambda>md. Some boom)\<rparr>) init_runner)) = None \<and>
   metadata_due example_config
     ((healthy 100)\<lparr>submit_metadata := (\<lambda>md. Some boom)\<rparr>) init_runner \<and>
   monotonic ((healthy 100)\<lparr>submit_metadata := (\<lambda>md. Some boom)\<rparr>)
     \<le> monotonic (healthy 115 :: (string \<times> string \<times> bool) cycle_env) \<and>
   metadata_due example_config (healthy 115 :: (string \<times> string \<times> bool) cycle_env)
     (fst (cycle example_config
        ((healthy 100)\<lparr>submit_metadata := (\<lambda>md. Some boom)\<rparr>) init_runner)) \<and>
   meta_ts init_runner = None \<and> \<not> event_set init_runner \<and>
   \<not> stop_requested ((healthy 100)\<lparr>submit_metadata := (\<lambda>md. Some boom)\<rparr>) \<and>
   metadata_fails ((healthy 100)\<lparr>submit_metadata := (\<lambda>md. Some boom)\<rparr>) True \<and>
   \<not> stop_requested ((healthy 115)\<lparr>get_hostname := Inl boom\<rparr>) \<and>
   metadata_fails ((healthy 115)\<lparr>get_hostname := Inl boom\<rparr>) True \<and>
   collection example_config
     [(healthy 100)\<lparr>submit_metadata := (\<lambda>md. Some boom)\<rparr>,
      (healthy 115)\<lparr>get_hostname := Inl boom\<rparr>] init_runner =
     (Running, \<lparr>event_set = False, meta_ts = None\<rparr>,
      [[Get_hostname, Get_metadata ''host1'' AGENT_VERSION True,
        Submit_metadata (''host1'', AGENT_VERSION, True), Log_exception boom, Sleep 15],
       [Get_hostname, Log_exception boom, Sleep 15]]) \<and>
   list_all2 retry_cycle
     [(healthy 100)\<lparr>submit_metadata := (\<lambda>md. Some boom)\<rparr>,
      (healthy 115)\<lparr>get_hostname := Inl boom\<rparr>]
     [[Get_hostname, Get_metadata ''host1'' AGENT_VERSION True,
       Submit_metadata (''host1'', AGENT_VERSION, True), Log_exception boom, Sleep 15],
      [Get_hostname, Log_exception boom, Sleep 15]]"
proof -
  have c: "collection example_config
     [(healthy 100)\<lparr>submit_metadata := (\<lambda>md. Some boom)\<rparr>,
      (healthy 115)\<lparr>get_hostname := Inl boom\<rparr>] init_runner =
     (Running, \<lparr>event_set = False, meta_ts = None\<rparr>,
      [[Get_hostname, Get_metadata ''host1'' AGENT_VERSION True,
        Submit_metadata (''host1'', AGENT_VERSION, True), Log_exception boom, Sleep 15],
       [Get_hostname, Log_exception boom, Sleep 15]])"
    by (simp add: collection_Cons collection_Nil init_runner_def healthy_def example_config_def
        cycle_def try_body_def metadata_step_def metadata_due_def)
  from metadata_timestamp_after_success
    [where cfg = example_config
       and env = "(healthy 100)\<lparr>submit_metadata := (\<lambda>md. Some boom)\<rparr>"
       and st = init_runner and env' = "healthy 115"
       and envs = "[(healthy 100)\<lparr>submit_metadata := (\<lambda>md. Some boom)\<rparr>,
                    (healthy 115)\<lparr>get_hostname := Inl boom\<rparr>]"]
  show ?thesis
    unfolding c
    by (simp add: init_runner_def healthy_def metadata_fails_def metadata_due_def)
qed

subsection \<open>Stopping the loop\<close>

lemma cycle_ignores_flag:
  "cycle cfg env (st\<lparr>event_set := b\<rparr>) =
     ((fst (cycle cfg env st))\<lparr>event_set := b\<rparr>, snd (cycle cfg env st))"
proof -
  have m: "metadata_step cfg env (st\<lparr>event_set := b\<rparr>) =
      (case metadata_step cfg env st of (s, evs, r) \<Rightarrow> (s\<lparr>event_set := b\<rparr>, evs, r))"
    by (simp add: metadata_step_def metadata_due_def split: sum.splits option.splits)
  have t: "try_body cfg env (st\<lparr>event_set := b\<rparr>) =
      (case try_body cfg env st of (s, evs, r) \<Rightarrow> (s\<lparr>event_set := b\<rparr>, evs, r))"
    unfolding try_body_def m
    by (cases "metadata_step cfg env st") (simp split: option.splits)
  show ?thesis
    unfolding cycle_def t
    by (cases "try_body cfg env st") simp
qed

lemma collection_stop_in_flight:
  assumes "\<not> event_set st" "stop_requested env"
  shows "collection cfg (env # rest) st =
     (Exited, fst (stop (fst (cycle cfg env st))), [snd (cycle cfg env st)])"
  using assms
  by (cases "cycle cfg env st") (simp add: collection_Cons collection_stopped stop_def)

text \<open>
  C8.  \<open>stop()\<close> sets the flag and changes nothing else of the runner, and a second
  call leaves the runner as the first one left it.  An iteration does not read the flag:
  it does the same whatever the flag is, and hands it on unchanged.  The loop tests the
  flag before each iteration: once it is set, no iteration is executed and the loop
  returns, which is what \<open>join()\<close> waits for.  When \<open>stop()\<close> is called while an
  iteration is in flight, that iteration is completed up to and including its sleep,
  and the loop returns without starting another one, whatever would come next.
\<close>

theorem stop_cooperative:
  "fst (stop st) = st\<lparr>event_set := True\<rparr> \<and>
   fst (stop (fst (stop st))) = fst (stop st) \<and>
   cycle cfg env (st\<lparr>event_set := b\<rparr>) =
     ((fst (cycle cfg env st))\<lparr>event_set := b\<rparr>, snd (cycle cfg env st)) \<and>
   collection cfg envs (fst (stop st)) = (Exited, fst (stop st), []) \<and>
   (\<not> event_set st \<and> stop_requested env \<longrightarrow>
      collection cfg (env # envs) st =
        (Exited, fst (stop (fst (cycle cfg env st))), [snd (cycle cfg env st)]) \<and>
      (\<exists>pre. snd (cycle cfg env st) = pre @ [Sleep (min_collection_interval cfg)]))"
proof -
  have "event_set (fst (stop st))" by (simp add: stop_def)
  then have "collection cfg envs (fst (stop st)) = (Exited, fst (stop st), [])"
    by (rule collection_stopped)
  with cycle_ignores_flag [where cfg = cfg and env = env and st = st and b = b]
    collection_stop_in_flight [where st = st and env = env and cfg = cfg and rest = envs]
    cycle_ends_with_sleep [of cfg env st]
  show ?thesis
    by (simp add: stop_def)
qed

theorem stop_cooperative_witness:
  "fst (stop init_runner) = init_runner\<lparr>event_set := True\<rparr> \<and>
   fst (stop (fst (stop init_runner))) = fst (stop init_runner) \<and>
   collection example_config [healthy 0, healthy 15] (fst (stop init_runner)) =
     (Exited, fst (stop init_runner), []) \<and>
   \<not> event_set init_runner \<and> stop_requested ((healthy 0)\<lparr>stop_requested := True\<rparr>) \<and>
   collection example_config [(healthy 0)\<lparr>stop_requested := True\<rparr>, healthy 15, healthy 30]
       init_runner =
     (Exited, \<lparr>event_set = True, meta_ts = Some 0\<rparr>,
      [[Get_hostname, Get_metadata ''host1'' AGENT_VERSION True,
        Submit_metadata (''host1'', AGENT_VERSION, True),
        Run_checks, Serialize_and_push, Sleep 15]])"
  using stop_cooperative
    [where st = init_runner and cfg = example_config
       and env = "(healthy 0)\<lparr>stop_requested := True\<rparr>" and b = True
       and envs = "[healthy 15, healthy 30]"]
    stop_cooperative
    [where st = init_runner and cfg = example_config
       and env = "(healthy 0)\<lparr>stop_requested := True\<rparr>" and b = True
       and envs = "[healthy 0, healthy 15]"]
  by (simp add: init_runner_def healthy_def example_config_def stop_def cycle_def try_body_def
      metadata_step_def metadata_due_def)

section \<open>The check: what a walk emits\<close>

subsection \<open>The object only gains emissions\<close>

lemma only_emits_refl: "only_emits self self"
  by (simp add: only_emits_def)

lemma only_emits_trans: "only_emits a b \<Longrightarrow> only_emits b c \<Longrightarrow> only_emits a c"
proof -
  assume ab: "only_emits a b" and bc: "only_emits b c"
  let ?n = "length (emitted a)" and ?m = "length (emitted b)"
  from ab have a: "take ?n (emitted b) = emitted a" by (simp add: only_emits_def)
  from bc have b: "take ?m (emitted c) = emitted b" by (simp add: only_emits_def)
  from a have "length (take ?n (emitted b)) = ?n" by simp
  then have le: "?n \<le> ?m" by simp
  have "take ?n (emitted c) = take ?n (take ?m (emitted c))"
    using le by (simp add: min_absorb1)
  with a b have "take ?n (emitted c) = emitted a" by simp
  with ab bc show ?thesis by (simp add: only_emits_def)
qed

lemma only_emits_emit: "only_emits self (emit out self)"
  by (simp add: only_emits_def emit_def)

lemma only_emits_fields:
  "only_emits self self' \<Longrightarrow>
   nested_tags self' = nested_tags self \<and> metric_categories self' = metric_categories self \<and>
   custom_stats self' = custom_stats self \<and> collect_stats self' = collect_stats self \<and>
   custom_queries_units_gauge self' = custom_queries_units_gauge self \<and>
   custom_tags self' = custom_tags self \<and> url self' = url self \<and>
   service_check_tags self' = service_check_tags self"
  apply (simp add: only_emits_def)
  apply (cases self; cases self')
  apply simp
  done

lemma submit_metrics_only_emits: "only_emits self (snd (submit_metrics M child prefix tags self))"
  by (auto simp: submit_metrics_def submit_def Let_def split: option.splits
      intro: only_emits_refl only_emits_emit only_emits_trans)

lemma process_stats_only_emits:
  "only_emits self (snd (process_stats M stats prefix tags lvl self))"
proof (induction M stats prefix tags lvl self rule: process_stats.induct)
  case (1 M prefix tags lvl self)
  show ?case by (simp add: only_emits_refl)
next
  case (2 M t attrs cs rest prefix tags lvl self)
  let ?child = "Element t attrs cs"
  consider (leaf) "t \<in> fst ` set (METRIC_VALUE_FIELDS M)"
    | (category) "t \<notin> fst ` set (METRIC_VALUE_FIELDS M)" "t \<in> set (CATEGORY_FIELDS M)"
    | (other) "t \<notin> fst ` set (METRIC_VALUE_FIELDS M)" "t \<notin> set (CATEGORY_FIELDS M)"
    by blast
  then show ?case
  proof cases
    case leaf
    obtain x y where sm: "submit_metrics M ?child prefix tags self = (x, y)"
      by (cases "submit_metrics M ?child prefix tags self")
    with submit_metrics_only_emits [of self M ?child prefix tags] have y: "only_emits self y"
      by simp
    show ?thesis
    proof (cases x)
      case None
      with "2.IH"(1) [OF leaf sm [symmetric]] y have
        "only_emits self (snd (process_stats M rest prefix tags lvl y))"
        by (blast intro: only_emits_trans)
      with leaf sm None show ?thesis by simp
    next
      case (Some e)
      with leaf sm y show ?thesis by simp
    qed
  next
    case category
    let ?tags = "recursion_tags self ?child prefix tags lvl"
    obtain x y where ps: "process_stats M cs prefix ?tags (lvl + 1) self = (x, y)"
      by (cases "process_stats M cs prefix ?tags (lvl + 1) self")
    with "2.IH"(2) [OF category] have y: "only_emits self y" by simp
    show ?thesis
    proof (cases x)
      case None
      with "2.IH"(3) [OF category ps [symmetric]] y have
        "only_emits self (snd (process_stats M rest prefix tags lvl y))"
        by (blast intro: only_emits_trans)
      with category ps None show ?thesis by simp
    next
      case (Some e)
      with category ps y show ?thesis by simp
    qed
  next
    case other
    with "2.IH"(4) show ?thesis by simp
  qed
qed

subsection \<open>The walk as a sequence of steps\<close>

lemma process_stats_Cons:
  "process_stats M (child # rest) prefix tags lvl self =
     (if tag child \<in> fst ` set (METRIC_VALUE_FIELDS M) then
        and_then (submit_metrics M child prefix tags self)
          (process_stats M rest prefix tags lvl)
      else if tag child \<in> set (CATEGORY_FIELDS M) then
        and_then (process_stats M (children child) prefix
                    (recursion_tags self child prefix tags lvl) (lvl + 1) self)
          (process_stats M rest prefix tags lvl)
      else process_stats M rest prefix tags lvl self)"
  by (cases child) (simp add: and_then_def split: prod.splits option.splits)

lemma and_then_assoc:
  "and_then (and_then r f) g = and_then r (\<lambda>self. and_then (f self) g)"
  by (cases r) (simp add: and_then_def split: option.splits)

lemma and_then_return: "and_then (None, self) f = f self"
  by (simp add: and_then_def)

lemma and_then_cong_emits:
  assumes "\<And>s. only_emits self s \<Longrightarrow> f s = g s" "only_emits self (snd r)"
  shows "and_then r f = and_then r g"
  using assms by (cases r) (simp add: and_then_def split: option.splits)

lemma process_stats_append:
  "process_stats M (pre @ post) prefix tags lvl self =
     and_then (process_stats M pre prefix tags lvl self) (process_stats M post prefix tags lvl)"
proof (induction pre arbitrary: self)
  case Nil
  show ?case by (simp add: and_then_return)
next
  case (Cons c pre)
  show ?case
    by (simp add: process_stats_Cons and_then_assoc Cons.IH [abs_def] del: process_stats.simps)
qed

text \<open>
  C7.  The walk over a list of children with an interior category node in it is: the
  walk over the children before it, then the walk over the children of the node, then
  the walk over the children after it, in this order, each as long as no exception
  ended the one before.  The node's children are walked one level deeper; their tag set
  is the current one extended with \<open>key:name\<close>, where \<open>key\<close> is the entry at the
  current depth of the tag-key list configured for the metric prefix and \<open>name\<close> the
  name of the node, when there is such a list with an entry at that depth, and the
  current tag set unchanged otherwise.  The children after the node are walked with the
  tag set and the depth of the node itself.
\<close>

theorem interior_node_recursion:
  assumes "tag child \<notin> fst ` set (METRIC_VALUE_FIELDS M)"
    and "tag child \<in> set (CATEGORY_FIELDS M)"
  shows "process_stats M (pre @ child # post) prefix tags lvl self =
     and_then (process_stats M pre prefix tags lvl self)
       (\<lambda>self1. and_then
          (process_stats M (children child) prefix
             (case map_of (nested_tags self) prefix of
                None \<Rightarrow> tags
              | Some tag_list \<Rightarrow>
                  if lvl < length tag_list
                  then tags @ [tag_list ! lvl @ '':'' @ fmt (get child ''name'')]
                  else tags)
             (lvl + 1) self1)
          (process_stats M post prefix tags lvl))"
proof -
  have tags: "recursion_tags self1 child prefix tags lvl =
      (case map_of (nested_tags self) prefix of
         None \<Rightarrow> tags
       | Some tag_list \<Rightarrow>
           if lvl < length tag_list
           then tags @ [tag_list ! lvl @ '':'' @ fmt (get child ''name'')]
           else tags)" if "only_emits self self1" for self1
    using only_emits_fields [OF that]
    by (auto simp: recursion_tags_def split: option.splits)
  have "process_stats M (pre @ child # post) prefix tags lvl self =
      and_then (process_stats M pre prefix tags lvl self)
        (process_stats M (child # post) prefix tags lvl)"
    by (rule process_stats_append)
  also have "\<dots> = and_then (process_stats M pre prefix tags lvl self)
       (\<lambda>self1. and_then
          (process_stats M (children child) prefix
             (case map_of (nested_tags self) prefix of
                None \<Rightarrow> tags
              | Some tag_list \<Rightarrow>
                  if lvl < length tag_list
                  then tags @ [tag_list ! lvl @ '':'' @ fmt (get child ''name'')]
                  else tags)
             (lvl + 1) self1)
          (process_stats M post prefix tags lvl))"
  proof (rule and_then_cong_emits)
    show "only_emits self (snd (process_stats M pre prefix tags lvl self))"
      by (rule process_stats_only_emits)
  next
    fix s assume "only_emits self s"
    from tags [OF this] assms
    show "process_stats M (child # post) prefix tags lvl s =
      and_then
          (process_stats M (children child) prefix
             (case map_of (nested_tags self) prefix of
                None \<Rightarrow> tags
              | Some tag_list \<Rightarrow>
                  if lvl < length tag_list
                  then tags @ [tag_list ! lvl @ '':'' @ fmt (get child ''name'')]
                  else tags)
             (lvl + 1) s)
          (process_stats M post prefix tags lvl)"
      by (simp add: process_stats_Cons del: process_stats.simps)
  qed
  finally show ?thesis .
qed

theorem interior_node_recursion_witness:
  "tag (Element ''Stat'' [(''name'', ''Derby'')] [count_leaf ''PoolSize''])
     \<notin> fst ` set (METRIC_VALUE_FIELDS example_modules) \<and>
   tag (Element ''Stat'' [(''name'', ''Derby'')] [count_leaf ''PoolSize''])
     \<in> set (CATEGORY_FIELDS example_modules) \<and>
   process_stats example_modules
     ([count_leaf ''CreateCount''] @
      Element ''Stat'' [(''name'', ''Derby'')] [count_leaf ''PoolSize''] #
      [count_leaf ''CloseCount''])
     ''jdbc'' [''server:S1''] 0 example_check =
   (None, example_check\<lparr>emitted :=
      [Sample GAUGE ''ibm_was.jdbc.CreateCount'' (StrV ''5'') [''server:S1''],
       Sample GAUGE ''ibm_was.jdbc.PoolSize'' (StrV ''5'') [''server:S1'', ''provider:Derby''],
       Sample GAUGE ''ibm_was.jdbc.CloseCount'' (StrV ''5'') [''server:S1'']]\<rparr>)"
  using interior_node_recursion
    [where child = "Element ''Stat'' [(''name'', ''Derby'')] [count_leaf ''PoolSize'']"
       and M = example_modules and pre = "[count_leaf ''CreateCount'']"
       and post = "[count_leaf ''CloseCount'']" and prefix = "''jdbc''"
       and tags = "[''server:S1'']" and lvl = 0 and self = example_check]
  by (simp add: example_modules_def example_check_def count_leaf_def and_then_def
      submit_metrics_def get_def attr_val_def fmt_def metric_type_mapping_def submit_def emit_def
      METRIC_PREFIX_def recursion_tags_def)

subsection \<open>What a leaf emits\<close>

lemma new_emitted_emit: "new_emitted self (emit out self) = [out]"
  by (simp add: new_emitted_def emit_def)

lemma new_emitted_emit2: "new_emitted self (emit out2 (emit out1 self)) = [out1, out2]"
  by (simp add: new_emitted_def emit_def)

lemma submit_metrics_leaf:
  assumes "map_of (METRIC_VALUE_FIELDS M) (tag child) = Some field"
    and "get child ''name'' = Some name"
    and "map_of metric_type_mapping (tag child) = Some k"
  shows "fst (submit_metrics M child prefix tags self) = None \<and>
     new_emitted self (snd (submit_metrics M child prefix tags self)) =
       Sample (if reinterpreted self child prefix then GAUGE else k)
         (normalize M name (''ibm_was.'' @ prefix)) (attr_val (get child field)) tags
       # (if prefix = ''jvm''
          then [Sample GAUGE (normalize M name (''ibm_was.'' @ prefix) @ ''_gauge'')
                  (attr_val (get child field)) tags]
          else [])"
proof -
  have ts: "map_of metric_type_mapping ''TimeStatistic'' = Some GAUGE"
    by (simp add: metric_type_mapping_def)
  have c: "((case get child ''unit'' of None \<Rightarrow> False
                | Some u \<Rightarrow> u \<in> custom_queries_units_gauge self)
               \<and> prefix \<in> custom_stats self \<and> tag child = ''CountStatistic'')
           = reinterpreted self child prefix"
    by (auto simp: reinterpreted_def)
  show ?thesis
    unfolding submit_metrics_def c
    using assms ts
    by (cases "reinterpreted self child prefix")
       (simp_all add: Let_def submit_def METRIC_PREFIX_def new_emitted_emit new_emitted_emit2)
qed

text \<open>
  The kind of the first sample of a leaf, on any check object: a gauge when the three
  conditions of lines 139 to 143 hold, the kind the table dispatches the tag to otherwise.
\<close>

lemma first_sample_kind:
  assumes "map_of (METRIC_VALUE_FIELDS M) (tag child) = Some field"
    and "get child ''name'' = Some name"
    and "map_of metric_type_mapping (tag child) = Some k"
  shows "hd (new_emitted self (snd (submit_metrics M child prefix tags self))) =
       Sample
         (if tag child = ''CountStatistic'' \<and>
             (\<exists>u. get child ''unit'' = Some u \<and> u \<in> custom_queries_units_gauge self) \<and>
             prefix \<in> custom_stats self
          then GAUGE else k)
         (normalize M name (''ibm_was.'' @ prefix)) (attr_val (get child field)) tags"
proof -
  have "reinterpreted self child prefix \<longleftrightarrow>
      tag child = ''CountStatistic'' \<and>
      (\<exists>u. get child ''unit'' = Some u \<and> u \<in> custom_queries_units_gauge self) \<and>
      prefix \<in> custom_stats self"
    by (auto simp: reinterpreted_def split: option.splits)
  with submit_metrics_leaf [OF assms, of prefix tags self] show ?thesis
    by simp
qed

text \<open>
  C6.  A leaf with a value field, a name and a dispatched type tag is submitted without
  an exception.  Under the prefix \<open>jvm\<close> exactly two samples are emitted for it: one
  under the normalized name with the dispatched kind, then one under that name followed
  by \<open>_gauge\<close> with kind \<open>GAUGE\<close>, with the same value and the same tags.  Under any
  other prefix exactly one sample is emitted, the first of the two.
\<close>

theorem jvm_dual_emission:
  assumes "map_of (METRIC_VALUE_FIELDS M) (tag child) = Some field"
    and "get child ''name'' = Some name"
    and "map_of metric_type_mapping (tag child) = Some k"
  shows "fst (submit_metrics M child prefix tags self) = None \<and>
     (prefix = ''jvm'' \<longrightarrow>
        new_emitted self (snd (submit_metrics M child prefix tags self)) =
          [Sample (if reinterpreted self child ''jvm'' then GAUGE else k)
             (normalize M name ''ibm_was.jvm'') (attr_val (get child field)) tags,
           Sample GAUGE (normalize M name ''ibm_was.jvm'' @ ''_gauge'')
             (attr_val (get child field)) tags]) \<and>
     (prefix \<noteq> ''jvm'' \<longrightarrow>
        new_emitted self (snd (submit_metrics M child prefix tags self)) =
          [Sample (if reinterpreted self child prefix then GAUGE else k)
             (normalize M name (''ibm_was.'' @ prefix)) (attr_val (get child field)) tags])"
proof (cases "prefix = ''jvm''")
  case True
  from submit_metrics_leaf [OF assms, of "''jvm''" tags self] True show ?thesis
    by simp
next
  case False
  from submit_metrics_leaf [OF assms, of prefix tags self] False show ?thesis
    by simp
qed

theorem jvm_dual_emission_witness:
  "map_of (METRIC_VALUE_FIELDS example_modules) (tag (count_leaf ''requestCount'')) =
     Some ''count'' \<and>
   get (count_leaf ''requestCount'') ''name'' = Some ''requestCount'' \<and>
   map_of metric_type_mapping (tag (count_leaf ''requestCount'')) = Some MONOTONIC_COUNT \<and>
   new_emitted example_check
     (snd (submit_metrics example_modules (count_leaf ''requestCount'') ''jvm''
            [''server:S1'', ''node:N1''] example_check)) =
     [Sample MONOTONIC_COUNT ''ibm_was.jvm.requestCount'' (StrV ''5'')
        [''server:S1'', ''node:N1''],
      Sample GAUGE ''ibm_was.jvm.requestCount_gauge'' (StrV ''5'')
        [''server:S1'', ''node:N1'']] \<and>
   new_emitted example_check
     (snd (submit_metrics example_modules (count_leaf ''requestCount'') ''jdbc''
            [''server:S1'', ''node:N1''] example_check)) =
     [Sample GAUGE ''ibm_was.jdbc.requestCount'' (StrV ''5'') [''server:S1'', ''node:N1'']]"
  using
    jvm_dual_emission [where M = example_modules and child = "count_leaf ''requestCount''"
      and field = "''count''" and name = "''requestCount''" and k = MONOTONIC_COUNT
      and self = example_check and prefix = "''jvm''" and tags = "[''server:S1'', ''node:N1'']"]
    jvm_dual_emission [where M = example_modules and child = "count_leaf ''requestCount''"
      and field = "''count''" and name = "''requestCount''" and k = MONOTONIC_COUNT
      and self = example_check and prefix = "''jdbc''" and tags = "[''server:S1'', ''node:N1'']"]
  by (simp add: example_modules_def example_check_def count_leaf_def get_def attr_val_def
      metric_type_mapping_def reinterpreted_def)

section \<open>The check: construction and execution\<close>

subsection \<open>The category maps after construction\<close>

lemma map_of_dict_merge:
  "distinct (map fst b) \<Longrightarrow> map_of (dict_merge a b) = map_of a ++ map_of b"
proof (induction b arbitrary: a)
  case Nil
  show ?case by (simp add: dict_merge_def)
next
  case (Cons kv b)
  obtain k v where kv: "kv = (k, v)" by (cases kv)
  from Cons.prems kv have d: "distinct (map fst b)" and k: "k \<notin> fst ` set b" by auto
  have "dict_merge a (kv # b) = dict_merge (AList.update k v a) b"
    by (simp add: dict_merge_def kv)
  also from Cons.IH [OF d] have "map_of \<dots> = map_of (AList.update k v a) ++ map_of b" .
  also have "\<dots> = (map_of a)(k \<mapsto> v) ++ map_of b"
    by (simp add: update_conv')
  also from k have "\<dots> = map_of a ++ map_of (kv # b)"
    by (simp add: kv map_add_upd_left dom_map_of_conv_image_fst)
  finally show ?case .
qed

lemma keys_dict_merge: "fst ` set (dict_merge a b) = fst ` set a \<union> fst ` set b"
proof (induction b arbitrary: a)
  case Nil
  show ?case by (simp add: dict_merge_def)
next
  case (Cons kv b)
  obtain k v where kv: "kv = (k, v)" by (cases kv)
  have "dict_merge a (kv # b) = dict_merge (AList.update k v a) b"
    by (simp add: dict_merge_def kv)
  with Cons.IH [of "AList.update k v a"] show ?case
    by (auto simp: kv dom_update)
qed

lemma custom_queries_loop_result:
  assumes "custom_queries_loop M qs (crt, cmc, cs) = Inr (crt', cmc', cs')"
  shows "(distinct (map fst crt) \<longrightarrow> distinct (map fst crt')) \<and>
     (distinct (map fst cmc) \<longrightarrow> distinct (map fst cmc')) \<and>
     map_of cmc' c =
       (case filter (\<lambda>q. stat q = Some c) qs of
          [] \<Rightarrow> map_of cmc c
        | q # fs \<Rightarrow> metric_prefix (last (q # fs))) \<and>
     map_of crt' p =
       (case filter (\<lambda>q. metric_prefix q = Some p) qs of
          [] \<Rightarrow> map_of crt p
        | q # fs \<Rightarrow> Some (query_tag_keys (last (q # fs)))) \<and>
     fst ` set crt' = fst ` set crt \<union> {p. \<exists>q\<in>set qs. metric_prefix q = Some p}"
  using assms
proof (induction qs arbitrary: crt cmc cs)
  case Nil
  then show ?case by simp
next
  case (Cons q qs)
  from Cons.prems obtain mp s where q: "validate_query M q = None" "metric_prefix q = Some mp"
    "stat q = Some s"
    and rest: "custom_queries_loop M qs
        (AList.update mp (query_tag_keys q) crt, AList.update s mp cmc, AList.update s True cs) =
        Inr (crt', cmc', cs')"
    by (auto simp: query_tag_keys_def split: option.splits)
  note IH = Cons.IH [OF rest]
  show ?case
  proof (intro conjI)
    from IH show "distinct (map fst crt) \<longrightarrow> distinct (map fst crt')"
      by (simp add: distinct_update)
    from IH show "distinct (map fst cmc) \<longrightarrow> distinct (map fst cmc')"
      by (simp add: distinct_update)
    from IH q show "map_of cmc' c =
       (case filter (\<lambda>q. stat q = Some c) (q # qs) of
          [] \<Rightarrow> map_of cmc c
        | q # fs \<Rightarrow> metric_prefix (last (q # fs)))"
      by (auto simp: update_conv' split: list.splits)
    from IH q show "map_of crt' p =
       (case filter (\<lambda>q. metric_prefix q = Some p) (q # qs) of
          [] \<Rightarrow> map_of crt p
        | q # fs \<Rightarrow> Some (query_tag_keys (last (q # fs))))"
      by (auto simp: update_conv' split: list.splits)
    from IH q show "fst ` set crt' = fst ` set crt \<union> {p. \<exists>q\<in>set (q # qs). metric_prefix q = Some p}"
      by (auto simp: dom_update)
  qed
qed


lemma custom_queries_loop_accepts:
  "custom_queries_loop M qs acc = Inr r \<Longrightarrow> q \<in> set qs \<Longrightarrow>
   validate_query M q = None \<and> (\<exists>mp. metric_prefix q = Some mp) \<and> (\<exists>s. stat q = Some s)"
proof (induction qs arbitrary: acc)
  case Nil
  then show ?case by simp
next
  case (Cons x qs)
  obtain crt cmc cs where acc: "acc = (crt, cmc, cs)" by (cases acc)
  from Cons.prems(1) acc obtain mp s where x: "validate_query M x = None"
    "metric_prefix x = Some mp" "stat x = Some s"
    and rest: "custom_queries_loop M qs
        (AList.update mp (query_tag_keys x) crt, AList.update s mp cmc, AList.update s True cs) =
        Inr r"
    by (auto simp: query_tag_keys_def split: option.splits)
  from Cons.prems(2) have "q = x \<or> q \<in> set qs" by simp
  then show ?case
  proof
    assume "q = x"
    with x show ?thesis by simp
  next
    assume "q \<in> set qs"
    with Cons.IH [OF rest] show ?thesis .
  qed
qed

lemma init_maps:
  assumes "init M inst = Inr self"
  shows "map_of (metric_categories self) c =
       (case filter (\<lambda>q. stat q = Some c) (inst_custom_queries inst) of
          [] \<Rightarrow> map_of (METRIC_CATEGORIES M) c
        | q # fs \<Rightarrow> metric_prefix (last (q # fs)))"
    and "map_of (nested_tags self) p =
       (case filter (\<lambda>q. metric_prefix q = Some p) (inst_custom_queries inst) of
          [] \<Rightarrow> map_of (NESTED_TAGS M) p
        | q # fs \<Rightarrow> Some (query_tag_keys (last (q # fs))))"
    and "custom_stats self =
       fst ` set (NESTED_TAGS M) \<union>
       {p. \<exists>q\<in>set (inst_custom_queries inst). metric_prefix q = Some p}"
proof -
  let ?qs = "inst_custom_queries inst"
  from assms obtain crt cmc cs where
    loop: "custom_queries_loop M ?qs ([], [], setup_configured_stats M inst) = Inr (crt, cmc, cs)"
    and nt: "nested_tags self = dict_merge (NESTED_TAGS M) crt"
    and mc: "metric_categories self = dict_merge (METRIC_CATEGORIES M) cmc"
    and st: "custom_stats self = set (map fst (nested_tags self))"
    by (auto simp: init_def append_custom_queries_def split: sum.splits)
  note r = custom_queries_loop_result [OF loop]
  from r [of c p] have dcmc: "distinct (map fst cmc)" and dcrt: "distinct (map fst crt)"
    by simp_all
  show "map_of (metric_categories self) c =
       (case filter (\<lambda>q. stat q = Some c) ?qs of
          [] \<Rightarrow> map_of (METRIC_CATEGORIES M) c
        | q # fs \<Rightarrow> metric_prefix (last (q # fs)))"
  proof (cases "filter (\<lambda>q. stat q = Some c) ?qs")
    case Nil
    with r [of c p] show ?thesis
      by (simp add: mc map_of_dict_merge [OF dcmc] map_add_def)
  next
    case (Cons q fs)
    have "last (q # fs) \<in> set (filter (\<lambda>q. stat q = Some c) ?qs)"
      unfolding Cons by (rule last_in_set) simp
    then have "last (q # fs) \<in> set ?qs" by simp
    from custom_queries_loop_accepts [OF loop this]
    obtain mp where "metric_prefix (last (q # fs)) = Some mp" by blast
    with r [of c p] Cons show ?thesis
      by (simp add: mc map_of_dict_merge [OF dcmc] map_add_def)
  qed
  show "map_of (nested_tags self) p =
       (case filter (\<lambda>q. metric_prefix q = Some p) ?qs of
          [] \<Rightarrow> map_of (NESTED_TAGS M) p
        | q # fs \<Rightarrow> Some (query_tag_keys (last (q # fs))))"
    using r [of c p] by (simp add: nt map_of_dict_merge [OF dcrt] map_add_def split: list.splits)
  show "custom_stats self =
       fst ` set (NESTED_TAGS M) \<union> {p. \<exists>q\<in>set ?qs. metric_prefix q = Some p}"
    using r [of c p] by (simp add: st nt keys_dict_merge)
qed

text \<open>
  What \<open>custom_stats\<close> holds after construction: the keys of the built-in tag-key map
  and the metric prefixes of the custom queries.
\<close>

lemma custom_stats_init:
  assumes "init M inst = Inr self"
  shows "custom_stats self =
       fst ` set (NESTED_TAGS M) \<union>
       {p. \<exists>q\<in>set (inst_custom_queries inst). metric_prefix q = Some p}"
  using init_maps(3) [OF assms] .

lemma init_units_gauge:
  assumes "init M inst = Inr self"
  shows "custom_queries_units_gauge self = set (inst_custom_queries_units_gauge inst)"
  using assms by (auto simp: init_def split: sum.splits)

text \<open>
  C5.  \<open>CountStatistic\<close> is the type tag dispatched to a monotonic count.  On a check
  built by the constructor, at any later moment of its life, the first sample of a leaf
  with a value field, a name and a dispatched type tag has kind \<open>GAUGE\<close> when the tag
  is \<open>CountStatistic\<close>, the unit attribute is among the configured units to
  reinterpret, and the metric prefix is a key of the tag-key map of the check: a key of
  the built-in tag-key table, or the metric prefix of a custom query.  When one of the
  three fails, its kind is the one the table dispatches the tag to.
\<close>

theorem gauge_reinterpretation:
  assumes "init M inst = Inr self" and "only_emits self s"
    and "map_of (METRIC_VALUE_FIELDS M) (tag child) = Some field"
    and "get child ''name'' = Some name"
    and "map_of metric_type_mapping (tag child) = Some k"
  shows "map_of metric_type_mapping ''CountStatistic'' = Some MONOTONIC_COUNT \<and>
     hd (new_emitted s (snd (submit_metrics M child prefix tags s))) =
       Sample
         (if tag child = ''CountStatistic'' \<and>
             (\<exists>u. get child ''unit'' = Some u \<and>
                  u \<in> set (inst_custom_queries_units_gauge inst)) \<and>
             (prefix \<in> fst ` set (NESTED_TAGS M) \<or>
              (\<exists>q\<in>set (inst_custom_queries inst). metric_prefix q = Some prefix))
          then GAUGE else k)
         (normalize M name (''ibm_was.'' @ prefix)) (attr_val (get child field)) tags"
proof -
  from only_emits_fields [OF assms(2)] have
    "custom_queries_units_gauge s = custom_queries_units_gauge self"
    "custom_stats s = custom_stats self" by simp_all
  with init_units_gauge [OF assms(1)] custom_stats_init [OF assms(1)] have
    "custom_queries_units_gauge s = set (inst_custom_queries_units_gauge inst)"
    "prefix \<in> custom_stats s \<longleftrightarrow>
       prefix \<in> fst ` set (NESTED_TAGS M) \<or>
       (\<exists>q\<in>set (inst_custom_queries inst). metric_prefix q = Some prefix)"
    by auto
  with first_sample_kind [OF assms(3,4,5), of s prefix tags] show ?thesis
    by (simp add: metric_type_mapping_def)
qed

theorem gauge_reinterpretation_witness:
  "init example_modules example_instance = Inr example_check \<and>
   only_emits example_check example_check \<and>
   map_of (METRIC_VALUE_FIELDS example_modules) (tag (count_leaf ''ObjectCount'')) =
     Some ''count'' \<and>
   get (count_leaf ''ObjectCount'') ''name'' = Some ''ObjectCount'' \<and>
   map_of metric_type_mapping (tag (count_leaf ''ObjectCount'')) = Some MONOTONIC_COUNT \<and>
   hd (new_emitted example_check
        (snd (submit_metrics example_modules (count_leaf ''ObjectCount'') ''object_pool''
               [''server:S1''] example_check))) =
     Sample GAUGE ''ibm_was.object_pool.ObjectCount'' (StrV ''5'') [''server:S1''] \<and>
   hd (new_emitted example_check
        (snd (submit_metrics example_modules (count_leaf ''ObjectCount'') ''jdbc''
               [''server:S1''] example_check))) =
     Sample GAUGE ''ibm_was.jdbc.ObjectCount'' (StrV ''5'') [''server:S1''] \<and>
   hd (new_emitted example_check
        (snd (submit_metrics example_modules (count_leaf ''ObjectCount'') ''jvm''
               [''server:S1''] example_check))) =
     Sample MONOTONIC_COUNT ''ibm_was.jvm.ObjectCount'' (StrV ''5'') [''server:S1'']"
proof -
  have i: "init example_modules example_instance = Inr example_check"
    by (simp add: init_def append_custom_queries_def setup_configured_stats_def dict_merge_def
        query_tag_keys_def parse_http_options_def fmt_def example_modules_def
        example_instance_def example_check_def)
  have leaf: "map_of (METRIC_VALUE_FIELDS example_modules) (tag (count_leaf ''ObjectCount'')) =
      Some ''count''"
    "get (count_leaf ''ObjectCount'') ''name'' = Some ''ObjectCount''"
    "map_of metric_type_mapping (tag (count_leaf ''ObjectCount'')) = Some MONOTONIC_COUNT"
    by (simp_all add: example_modules_def count_leaf_def get_def metric_type_mapping_def)
  from
    gauge_reinterpretation [OF i only_emits_refl leaf,
      where prefix = "''object_pool''" and tags = "[''server:S1'']"]
    gauge_reinterpretation [OF i only_emits_refl leaf,
      where prefix = "''jdbc''" and tags = "[''server:S1'']"]
    gauge_reinterpretation [OF i only_emits_refl leaf,
      where prefix = "''jvm''" and tags = "[''server:S1'']"]
    i leaf
  show ?thesis
    by (simp add: only_emits_refl example_modules_def example_instance_def count_leaf_def
        get_def attr_val_def)
qed

text \<open>
  C5 as it is worded asks for a metric prefix that a custom query added.  Here the
  instance has no custom query at all; \<open>jdbc\<close> is the prefix of a built-in category with
  a built-in tag-key list, and a count under it is emitted as a gauge, not with the kind
  its tag is dispatched to.
\<close>

theorem builtin_prefix_reinterpreted:
  "init example_modules builtin_instance = Inr builtin_check \<and>
   inst_custom_queries builtin_instance = [] \<and>
   map_of (METRIC_CATEGORIES example_modules) ''JDBC Connection Pools'' = Some ''jdbc'' \<and>
   tag (count_leaf ''CreateCount'') = ''CountStatistic'' \<and>
   map_of metric_type_mapping ''CountStatistic'' = Some MONOTONIC_COUNT \<and>
   new_emitted builtin_check
     (snd (submit_metrics example_modules (count_leaf ''CreateCount'') ''jdbc''
            [''server:S1''] builtin_check)) =
     [Sample GAUGE ''ibm_was.jdbc.CreateCount'' (StrV ''5'') [''server:S1'']]"
  by (simp add: init_def append_custom_queries_def setup_configured_stats_def dict_merge_def
      parse_http_options_def fmt_def example_modules_def builtin_instance_def
      example_instance_def builtin_check_def count_leaf_def metric_type_mapping_def
      submit_metrics_def get_def attr_val_def submit_def emit_def new_emitted_def
      METRIC_PREFIX_def)

subsection \<open>An execution only emits\<close>

lemma submit_service_checks_only_emits: "only_emits self (submit_service_checks v self)"
  by (auto simp: submit_service_checks_def submit_def
      intro: only_emits_emit only_emits_trans)

lemma make_request_only_emits: "only_emits self (snd (make_request M self))"
  by (auto simp: make_request_def request_failed_def split: sum.splits option.splits
      intro: only_emits_refl only_emits_emit only_emits_trans submit_service_checks_only_emits)

lemma get_node_from_name_only_emits: "only_emits self (snd (get_node_from_name M x path self))"
  by (auto simp: get_node_from_name_def split: sum.splits list.splits
      intro: only_emits_refl only_emits_emit)

lemma category_loop_only_emits:
  "only_emits self (snd (category_loop M server server_tags cats self))"
proof (induction cats arbitrary: self)
  case Nil
  show ?case by (simp add: only_emits_refl)
next
  case (Cons cp rest)
  obtain category prefix where cp: "cp = (category, prefix)" by (cases cp)
  let ?s0 = "emit (Log_debug (''Collecting '' @ category @ '' stats'')) self"
  have s0: "only_emits self ?s0" by (rule only_emits_emit)
  show ?case
  proof (cases "map_of (collect_stats ?s0) category = Some True")
    case False
    with Cons.IH [of ?s0] s0 show ?thesis
      by (auto simp: cp Let_def intro: only_emits_trans)
  next
    case True
    obtain r s1 where g: "get_node_from_name M server category ?s0 = (r, s1)"
      by (cases "get_node_from_name M server category ?s0")
    with get_node_from_name_only_emits [of ?s0 M server category] s0
    have s1: "only_emits self s1" by (auto intro: only_emits_trans)
    show ?thesis
    proof (cases r)
      case (Inl e)
      with True g s1 show ?thesis by (simp add: cp Let_def)
    next
      case (Inr stats)
      obtain x s2 where p: "process_stats M stats prefix server_tags 0 s1 = (x, s2)"
        by (cases "process_stats M stats prefix server_tags 0 s1")
      with process_stats_only_emits [of s1 M stats prefix server_tags 0] s1
      have s2: "only_emits self s2" by (auto intro: only_emits_trans)
      show ?thesis
      proof (cases x)
        case None
        with Cons.IH [of s2] s2 have
          "only_emits self (snd (category_loop M server server_tags rest s2))"
          by (blast intro: only_emits_trans)
        with True g Inr p None show ?thesis by (simp add: cp Let_def)
      next
        case (Some e)
        with True g Inr p s2 show ?thesis by (simp add: cp Let_def)
      qed
    qed
  qed
qed

lemma server_loop_only_emits: "only_emits self (snd (server_loop M node_tags servers self))"
proof (induction servers arbitrary: self)
  case Nil
  show ?case by (simp add: only_emits_refl)
next
  case (Cons server rest)
  let ?tags = "(''server:'' @ fmt (get server ''name'')) # node_tags"
  obtain x s1 where c: "category_loop M server ?tags (metric_categories self) self = (x, s1)"
    by (cases "category_loop M server ?tags (metric_categories self) self")
  with category_loop_only_emits [of self M server ?tags "metric_categories self"]
  have s1: "only_emits self s1" by simp
  show ?case
  proof (cases x)
    case None
    with Cons.IH [of s1] s1 have "only_emits self (snd (server_loop M node_tags rest s1))"
      by (blast intro: only_emits_trans)
    with c None show ?thesis by simp
  next
    case (Some e)
    with c s1 show ?thesis by simp
  qed
qed

lemma node_loop_only_emits: "only_emits self (snd (node_loop M nodes self))"
proof (induction nodes arbitrary: self)
  case Nil
  show ?case by (simp add: only_emits_refl)
next
  case (Cons node rest)
  let ?tags = "custom_tags self @ [''node:'' @ fmt (get node ''name'')]"
  obtain x s1 where c: "server_loop M ?tags (findall node ''Server'') self = (x, s1)"
    by (cases "server_loop M ?tags (findall node ''Server'') self")
  with server_loop_only_emits [of self M ?tags "findall node ''Server''"]
  have s1: "only_emits self s1" by simp
  show ?case
  proof (cases x)
    case None
    with Cons.IH [of s1] s1 have "only_emits self (snd (node_loop M rest s1))"
      by (blast intro: only_emits_trans)
    with c None show ?thesis by simp
  next
    case (Some e)
    with c s1 show ?thesis by simp
  qed
qed

lemma check_only_emits: "only_emits self (snd (check M self))"
proof -
  obtain r s1 where m: "make_request M self = (r, s1)" by (cases "make_request M self")
  with make_request_only_emits [of self M] have s1: "only_emits self s1" by simp
  have crit: "only_emits self
      (emit (Log_error msg) (submit_service_checks CRITICAL s1))" for msg
    using s1 by (blast intro: only_emits_trans only_emits_emit submit_service_checks_only_emits)
  have nodes: "only_emits self (snd (node_loop M nodes s1))" for nodes
    using s1 node_loop_only_emits [of s1 M nodes] by (blast intro: only_emits_trans)
  from m s1 crit nodes show ?thesis
    by (auto simp: check_def only_emits_refl split: sum.splits)
qed

text \<open>
  C9.  The two maps are built by the constructor, from the built-in tables and the
  custom queries, the last write winning, each map on its own key.  The category map is
  keyed by category name: a category maps to the metric prefix of the last custom query
  that names it, and to its built-in prefix when no custom query names it.  The tag-key
  map is keyed by metric prefix: a prefix maps to the tag keys of the last custom query
  with that prefix, and to its built-in tag keys when there is none.  No operation of
  the check changes the maps afterwards: an execution, a request, a walk and the
  submission of a leaf leave both as they were, on any check object.
\<close>

theorem category_maps_built_once:
  assumes "init M inst = Inr self"
  shows "map_of (metric_categories self) category =
       (case filter (\<lambda>q. stat q = Some category) (inst_custom_queries inst) of
          [] \<Rightarrow> map_of (METRIC_CATEGORIES M) category
        | q # fs \<Rightarrow> metric_prefix (last (q # fs))) \<and>
     map_of (nested_tags self) prefix =
       (case filter (\<lambda>q. metric_prefix q = Some prefix) (inst_custom_queries inst) of
          [] \<Rightarrow> map_of (NESTED_TAGS M) prefix
        | q # fs \<Rightarrow> Some (query_tag_keys (last (q # fs)))) \<and>
     nested_tags (snd (check M' s)) = nested_tags s \<and>
     metric_categories (snd (check M' s)) = metric_categories s \<and>
     nested_tags (snd (make_request M' s)) = nested_tags s \<and>
     metric_categories (snd (make_request M' s)) = metric_categories s \<and>
     nested_tags (snd (process_stats M' stats p tags lvl s)) = nested_tags s \<and>
     metric_categories (snd (process_stats M' stats p tags lvl s)) = metric_categories s \<and>
     nested_tags (snd (submit_metrics M' child p tags s)) = nested_tags s \<and>
     metric_categories (snd (submit_metrics M' child p tags s)) = metric_categories s"
  using init_maps(1,2) [OF assms]
    only_emits_fields [OF check_only_emits [where self = s and M = M']]
    only_emits_fields [OF make_request_only_emits [where self = s and M = M']]
    only_emits_fields [OF process_stats_only_emits
      [where self = s and M = M' and stats = stats and prefix = p and tags = tags and lvl = lvl]]
    only_emits_fields [OF submit_metrics_only_emits
      [where self = s and M = M' and child = child and prefix = p and tags = tags]]
  by simp

theorem category_maps_built_once_witness:
  "init example_modules colliding_instance = Inr colliding_check \<and>
   map_of (metric_categories colliding_check) ''JVM Runtime'' = Some ''jvm_custom'' \<and>
   map_of (metric_categories colliding_check) ''Object Pool'' = Some ''pool_b'' \<and>
   map_of (metric_categories colliding_check) ''JDBC Connection Pools'' = Some ''jdbc'' \<and>
   map_of (nested_tags colliding_check) ''pool_b'' = Some [''implementation''] \<and>
   map_of (nested_tags colliding_check) ''jdbc'' = Some [''provider'', ''dataSource''] \<and>
   nested_tags (snd (check example_modules colliding_check)) = nested_tags colliding_check \<and>
   metric_categories (snd (check example_modules colliding_check)) =
     metric_categories colliding_check"
proof -
  have i: "init example_modules colliding_instance = Inr colliding_check"
    by (simp add: init_def append_custom_queries_def setup_configured_stats_def dict_merge_def
        query_tag_keys_def parse_http_options_def fmt_def example_modules_def
        colliding_instance_def example_instance_def colliding_check_def)
  from category_maps_built_once
    [OF i, where category = "''JVM Runtime''" and prefix = "''pool_b''"
       and M' = example_modules and s = colliding_check]
    category_maps_built_once
    [OF i, where category = "''Object Pool''" and prefix = "''jdbc''"]
    category_maps_built_once
    [OF i, where category = "''JDBC Connection Pools''" and prefix = "''jdbc''"]
    i
  show ?thesis
    by (simp add: colliding_instance_def example_instance_def example_modules_def
        query_tag_keys_def)
qed

text \<open>
  C9 as it is worded has both maps collide on the category name.  The tag-key map does
  not.  In the first instance two custom queries name the category \<open>Object Pool\<close>: the
  later one takes the category, and the tag keys of the earlier one stay in the tag-key
  map under its prefix \<open>pool_a\<close>.  In the second instance the custom query names a
  category that no built-in entry has, and its tag keys replace the built-in ones of
  the prefix \<open>jdbc\<close>.
\<close>

theorem tag_keys_collide_on_prefix:
  "init example_modules colliding_instance = Inr colliding_check \<and>
   map_of (metric_categories colliding_check) ''Object Pool'' = Some ''pool_b'' \<and>
   map_of (nested_tags colliding_check) ''pool_a'' = Some [''kind''] \<and>
   init example_modules shadowing_instance = Inr shadowing_check \<and>
   map_of (METRIC_CATEGORIES example_modules) ''Thread Pools'' = None \<and>
   map_of (NESTED_TAGS example_modules) ''jdbc'' = Some [''provider'', ''dataSource''] \<and>
   map_of (nested_tags shadowing_check) ''jdbc'' = Some [''pool'']"
  by (simp add: init_def append_custom_queries_def setup_configured_stats_def dict_merge_def
      query_tag_keys_def parse_http_options_def fmt_def example_modules_def
      colliding_instance_def shadowing_instance_def example_instance_def
      colliding_check_def shadowing_check_def)

subsection \<open>An execution whose document cannot be used\<close>

lemma check_with_url:
  assumes "url self = Some u" and "u \<noteq> []"
  shows "check M self =
     (case make_request M self of
        (Inl e, self1) \<Rightarrow> (Some e, self1)
      | (Inr data, self1) \<Rightarrow>
         (case fromstring M data of
            Inl e \<Rightarrow>
              if cls e = ParseError then
                (None,
                 emit (Log_error (''Unable to parse the XML response: '' @ msg e))
                   (submit_service_checks CRITICAL self1))
              else (Some e, self1)
          | Inr server_data_xml \<Rightarrow> node_loop M (findall server_data_xml ''Node'') self1))"
  using assms by (simp add: check_def)

lemma submit_service_checks_emitted:
  "submit_service_checks v self =
     self\<lparr>emitted := emitted self @
       [Sample GAUGE ''ibm_was.can_connect'' (IntV (if v = OK then 1 else 0))
          (service_check_tags self),
        Service_check ''ibm_was.can_connect'' v (service_check_tags self)]\<rparr>"
  by (simp add: submit_service_checks_def submit_def emit_def SERVICE_CHECK_CONNECT_def)

lemma request_failed_reported:
  assumes "cls e = HTTPError \<or> cls e = ConnectionError"
  shows "request_failed e self =
     (Inl e,
      self\<lparr>emitted := emitted self @
        [Warning (''Couldn't connect to URL: '' @ fmt (url self) @ '' with exception: ''
                  @ msg e @ ''. Please verify the address is reachable''),
         Sample GAUGE ''ibm_was.can_connect'' (IntV 0) (service_check_tags self),
         Service_check ''ibm_was.can_connect'' CRITICAL (service_check_tags self)]\<rparr>)"
  using assms
  by (auto simp: request_failed_def submit_service_checks_emitted emit_def)

text \<open>
  The handler of line 80: when the request succeeds and the parser raises an exception
  of the class \<open>ParseError\<close>, the execution returns without an exception, and it has
  emitted, in this order: the gauge \<open>ibm_was.can_connect\<close> with value 1 and the
  service check \<open>OK\<close> of the successful request, the gauge with value 0 and the service
  check \<open>CRITICAL\<close>, and the error log line.
\<close>

lemma parse_error_handled:
  assumes "url self = Some u" and "u \<noteq> []"
    and "requests_get M (url self) (check_http_options self) = Inr resp"
    and "raise_for_status resp = None"
    and "fromstring M (content resp) = Inl e"
    and "cls e = ParseError"
  shows "check M self =
     (None,
      self\<lparr>emitted := emitted self @
        [Sample GAUGE ''ibm_was.can_connect'' (IntV 1) (service_check_tags self),
         Service_check ''ibm_was.can_connect'' OK (service_check_tags self),
         Sample GAUGE ''ibm_was.can_connect'' (IntV 0) (service_check_tags self),
         Service_check ''ibm_was.can_connect'' CRITICAL (service_check_tags self),
         Log_error (''Unable to parse the XML response: '' @ msg e)]\<rparr>)"
proof -
  from assms(3,4) have "make_request M self = (Inr (content resp), submit_service_checks OK self)"
    by (simp add: make_request_def)
  with assms(5,6) show ?thesis
    by (simp add: check_with_url [OF assms(1,2)] submit_service_checks_emitted emit_def)
qed

text \<open>
  An exception of the parser that is not a \<open>ParseError\<close> is not taken by the handler of
  line 80: it leaves the check, after the gauge and the service check of the successful
  request.
\<close>

lemma other_parser_exception_propagates:
  assumes "url self = Some u" and "u \<noteq> []"
    and "requests_get M (url self) (check_http_options self) = Inr resp"
    and "raise_for_status resp = None"
    and "fromstring M (content resp) = Inl e"
    and "cls e \<noteq> ParseError"
  shows "check M self =
     (Some e,
      self\<lparr>emitted := emitted self @
        [Sample GAUGE ''ibm_was.can_connect'' (IntV 1) (service_check_tags self),
         Service_check ''ibm_was.can_connect'' OK (service_check_tags self)]\<rparr>)"
proof -
  from assms(3,4) have "make_request M self = (Inr (content resp), submit_service_checks OK self)"
    by (simp add: make_request_def)
  with assms(5,6) show ?thesis
    by (simp add: check_with_url [OF assms(1,2)] submit_service_checks_emitted)
qed

text \<open>
  C1.  A malformed document is meant to end in a service check \<open>CRITICAL\<close>, an error
  log line and a normal return (the handler of line 80); the code misses this.  When the
  request succeeds and the document is not well-formed, the parser of \<open>lxml\<close> raises
  an \<open>XMLSyntaxError\<close>, which
  the handler of line 80 does not take: the exception leaves the check, and the
  execution has emitted the gauge \<open>ibm_was.can_connect\<close> with value 1 and the service
  check \<open>OK\<close> of the successful request and nothing else, no service check
  \<open>CRITICAL\<close> and no error log line.
\<close>

theorem malformed_document_propagates:
  assumes "url self = Some u" and "u \<noteq> []"
    and "requests_get M (url self) (check_http_options self) = Inr resp"
    and "raise_for_status resp = None"
    and "fromstring M (content resp) = Inl e"
    and "cls e = XMLSyntaxError"
  shows "fst (check M self) = Some e \<and>
     new_emitted self (snd (check M self)) =
       [Sample GAUGE ''ibm_was.can_connect'' (IntV 1) (service_check_tags self),
        Service_check ''ibm_was.can_connect'' OK (service_check_tags self)] \<and>
     Service_check ''ibm_was.can_connect'' CRITICAL (service_check_tags self)
       \<notin> set (new_emitted self (snd (check M self)))"
proof -
  from assms(6) have "cls e \<noteq> ParseError" by simp
  from other_parser_exception_propagates [OF assms(1-5) this] show ?thesis
    by (simp add: new_emitted_def)
qed

theorem malformed_document_propagates_witness:
  "url example_check = Some ''http://was/perf'' \<and>
   requests_get example_modules (url example_check) (check_http_options example_check) =
     Inr \<lparr>raise_for_status = None, content = ''<doc>''\<rparr> \<and>
   fromstring example_modules ''<doc>'' =
     Inl (Exn XMLSyntaxError ''Premature end of data in tag doc'') \<and>
   fst (check example_modules example_check) =
     Some (Exn XMLSyntaxError ''Premature end of data in tag doc'') \<and>
   new_emitted example_check (snd (check example_modules example_check)) =
     [Sample GAUGE ''ibm_was.can_connect'' (IntV 1) [''env:test'', ''url:http://was/perf''],
      Service_check ''ibm_was.can_connect'' OK [''env:test'', ''url:http://was/perf'']]"
  using malformed_document_propagates
    [where self = example_check and M = example_modules and u = "''http://was/perf''"
       and resp = "\<lparr>raise_for_status = None, content = ''<doc>''\<rparr>"
       and e = "Exn XMLSyntaxError ''Premature end of data in tag doc''"]
  by (simp add: example_check_def example_modules_def)

text \<open>
  C2.  When the request raises a \<open>ConnectionError\<close> or an \<open>HTTPError\<close>, or the status
  check of the response raises one, the execution emits a warning, the gauge
  \<open>ibm_was.can_connect\<close> with value 0 and the service check \<open>CRITICAL\<close>, nothing
  else, and ends by raising that same exception to the caller of \<open>check\<close>.
\<close>

theorem fetch_failure_reraised:
  assumes "url self = Some u" and "u \<noteq> []"
    and "requests_get M (url self) (check_http_options self) = Inl e \<or>
         (\<exists>resp. requests_get M (url self) (check_http_options self) = Inr resp \<and>
                 raise_for_status resp = Some e)"
    and "cls e = HTTPError \<or> cls e = ConnectionError"
  shows "check M self =
     (Some e,
      self\<lparr>emitted := emitted self @
        [Warning (''Couldn't connect to URL: '' @ u @ '' with exception: ''
                  @ msg e @ ''. Please verify the address is reachable''),
         Sample GAUGE ''ibm_was.can_connect'' (IntV 0) (service_check_tags self),
         Service_check ''ibm_was.can_connect'' CRITICAL (service_check_tags self)]\<rparr>)"
proof -
  from assms(3) have "make_request M self = request_failed e self"
    by (auto simp: make_request_def)
  with request_failed_reported [OF assms(4), of self] assms(1) show ?thesis
    by (simp add: check_with_url [OF assms(1,2)] fmt_def)
qed

theorem fetch_failure_reraised_witness:
  "url example_check = Some ''http://was/perf'' \<and>
   requests_get
     (example_modules\<lparr>requests_get :=
        (\<lambda>u opts. Inr \<lparr>raise_for_status = Some (Exn HTTPError ''503''), content = []\<rparr>)\<rparr>)
     (url example_check) (check_http_options example_check) =
     Inr \<lparr>raise_for_status = Some (Exn HTTPError ''503''), content = []\<rparr> \<and>
   check
     (example_modules\<lparr>requests_get :=
        (\<lambda>u opts. Inr \<lparr>raise_for_status = Some (Exn HTTPError ''503''), content = []\<rparr>)\<rparr>)
     example_check =
     (Some (Exn HTTPError ''503''),
      example_check\<lparr>emitted :=
        [Warning (''Couldn't connect to URL: http://was/perf with exception: 503''
                  @ ''. Please verify the address is reachable''),
         Sample GAUGE ''ibm_was.can_connect'' (IntV 0) [''env:test'', ''url:http://was/perf''],
         Service_check ''ibm_was.can_connect'' CRITICAL
           [''env:test'', ''url:http://was/perf'']]\<rparr>)"
  using fetch_failure_reraised
    [where self = example_check and u = "''http://was/perf''"
       and M = "example_modules\<lparr>requests_get :=
          (\<lambda>u opts. Inr \<lparr>raise_for_status = Some (Exn HTTPError ''503''), content = []\<rparr>)\<rparr>"
       and e = "Exn HTTPError ''503''"]
  by (simp add: example_check_def example_modules_def)

text \<open>
  C2 as it is worded says that no exception leaves the check.  Here the request
  raises a \<open>ConnectionError\<close>, and the execution ends with that exception.
\<close>

theorem fetch_failure_raises:
  "requests_get
     (example_modules\<lparr>requests_get := (\<lambda>u opts. Inl (Exn ConnectionError ''refused''))\<rparr>)
     (url example_check) (check_http_options example_check) =
     Inl (Exn ConnectionError ''refused'') \<and>
   fst (check
     (example_modules\<lparr>requests_get := (\<lambda>u opts. Inl (Exn ConnectionError ''refused''))\<rparr>)
     example_check) = Some (Exn ConnectionError ''refused'')"
  by (simp add: example_check_def example_modules_def check_def make_request_def
      request_failed_def)

subsection \<open>An execution on a small document\<close>

lemma check_example_document:
  "check document_modules example_check =
     (None,
      example_check\<lparr>emitted :=
        [Sample GAUGE ''ibm_was.can_connect'' (IntV 1) [''env:test'', ''url:http://was/perf''],
         Service_check ''ibm_was.can_connect'' OK [''env:test'', ''url:http://was/perf''],
         Log_debug ''Collecting JVM Runtime stats'',
         Sample MONOTONIC_COUNT ''ibm_was.jvm.requestCount'' (StrV ''5'')
           [''server:S1'', ''env:test'', ''node:N1''],
         Sample GAUGE ''ibm_was.jvm.requestCount_gauge'' (StrV ''5'')
           [''server:S1'', ''env:test'', ''node:N1''],
         Log_debug ''Collecting JDBC Connection Pools stats'',
         Warning ''Error finding JDBC Connection Pools stats in XML output.'',
         Log_debug ''Collecting Object Pool stats'',
         Warning ''Error finding Object Pool stats in XML output.'']\<rparr>)"
  by (simp add: check_def make_request_def submit_service_checks_emitted emit_def findall_def
      get_node_from_name_def submit_metrics_def submit_def get_def fmt_def attr_val_def
      metric_type_mapping_def METRIC_PREFIX_def Let_def
      document_modules_def example_modules_def example_check_def example_document_def
      jvm_stat_def count_leaf_def)

end
